theory Spec2Isabelle
  imports Complex_Main
begin

section \<open>Numbers, arrays and strings of the source\<close>

text \<open>
  The source computes with JavaScript numbers. The inputs (candle fields, prices, account
  parameters) are modelled as finite, exact reals: rounding of double arithmetic is not
  modelled, and there is no negative zero. A division whose divisor can be zero on a path
  the code really takes yields a \<open>jsnum\<close>, which adds the non-finite results of such a
  division to the reals.
\<close>

datatype jsnum = Num real | PosInf | NegInf | NaN

definition js_div :: "real \<Rightarrow> real \<Rightarrow> jsnum" where
  "js_div x y =
     (if y \<noteq> 0 then Num (x / y)
      else if 0 < x then PosInf
      else if x < 0 then NegInf
      else NaN)"

text \<open>\<open>a < b\<close> and \<open>a > b\<close> with a finite right-hand side; every comparison with NaN is false.\<close>

fun js_lt :: "jsnum \<Rightarrow> real \<Rightarrow> bool" where
  "js_lt (Num x) y = (x < y)"
| "js_lt PosInf y = False"
| "js_lt NegInf y = True"
| "js_lt NaN y = False"

fun js_gt :: "jsnum \<Rightarrow> real \<Rightarrow> bool" where
  "js_gt (Num x) y = (y < x)"
| "js_gt PosInf y = True"
| "js_gt NegInf y = False"
| "js_gt NaN y = False"

text \<open>\<open>Math.ceil\<close> and \<open>Math.max(1, _)\<close>.\<close>

fun js_ceil :: "jsnum \<Rightarrow> jsnum" where
  "js_ceil (Num x) = Num (of_int \<lceil>x\<rceil>)"
| "js_ceil PosInf = PosInf"
| "js_ceil NegInf = NegInf"
| "js_ceil NaN = NaN"

fun js_max :: "real \<Rightarrow> jsnum \<Rightarrow> jsnum" where
  "js_max a (Num x) = Num (max a x)"
| "js_max a PosInf = PosInf"
| "js_max a NegInf = Num a"
| "js_max a NaN = NaN"

text \<open>
  \<open>Number(x.toFixed(6))\<close>: the nearest multiple of \<open>10\<^sup>-\<^sup>6\<close>, a tie going away from zero
  (\<open>toFixed\<close> rounds the absolute value and picks the larger candidate). For
  \<open>|x| \<ge> 10\<^sup>2\<^sup>1\<close> the source's \<open>toFixed\<close> prints the number itself; a double of that
  size is an integer, so the value is the same.
\<close>

definition toFixed6 :: "real \<Rightarrow> real" where
  "toFixed6 x = sgn x * of_int \<lfloor>\<bar>x\<bar> * 1000000 + 1 / 2\<rfloor> / 1000000"

text \<open>Decimal printing of an array length inside a template string.\<close>

fun show_nat :: "nat \<Rightarrow> string" where
  "show_nat n =
     (if n < 10 then [''0123456789'' ! n]
      else show_nat (n div 10) @ [''0123456789'' ! (n mod 10)])"

declare show_nat.simps [simp del]

text \<open>
  \<open>x.toFixed(2)\<close> as text, for \<open>0 \<le> x < 10\<^sup>2\<^sup>1\<close> (the only use prints a ratio of
  two absolute values that is below 2).
\<close>

definition toFixed2 :: "real \<Rightarrow> string" where
  "toFixed2 x =
     (let n = nat \<lfloor>x * 100 + 1 / 2\<rfloor>
      in show_nat (n div 100) @ ''.'' @ show_nat (n div 10 mod 10) @ show_nat (n mod 10))"

text \<open>\<open>Array.prototype.join\<close>.\<close>

fun join :: "string \<Rightarrow> string list \<Rightarrow> string" where
  "join sep [] = []"
| "join sep [x] = x"
| "join sep (x # y # ys) = x @ sep @ join sep (y # ys)"

text \<open>\<open>xs.filter(s => s !== null)\<close> on an array of strings and nulls.\<close>

fun filter_null :: "'a option list \<Rightarrow> 'a list" where
  "filter_null [] = []"
| "filter_null (None # xs) = filter_null xs"
| "filter_null (Some x # xs) = x # filter_null xs"

text \<open>\<open>xs.slice(a, b)\<close> for \<open>0 \<le> a\<close> and \<open>0 \<le> b\<close>.\<close>

definition slice :: "'a list \<Rightarrow> nat \<Rightarrow> nat \<Rightarrow> 'a list" where
  "slice xs a b = take (b - a) (drop a xs)"

text \<open>\<open>xs.slice(-n)\<close>: the last \<open>n\<close> elements (all of them when there are fewer).\<close>

definition slice_last :: "'a list \<Rightarrow> nat \<Rightarrow> 'a list" where
  "slice_last xs n = drop (length xs - n) xs"

text \<open>\<open>xs.reduce((a, b) => a + b, 0)\<close>.\<close>

definition reduce_sum :: "real list \<Rightarrow> real" where
  "reduce_sum xs = foldl (\<lambda>a b. a + b) 0 xs"

section \<open>types.ts\<close>

record Kline =
  time :: nat
  "open" :: real
  high :: real
  low :: real
  close :: real
  volume :: real


datatype Timeframe = TF_5m | TF_15m | TF_1h | TF_4h

datatype Direction = LONG | SHORT

datatype Status = PENDING | SENT | FAILED

record Signal =
  symbol :: string
  timeframe :: Timeframe
  strategyName :: string
  direction :: Direction
  entry :: real
  stopLoss :: real
  takeProfit :: real
  positionSize :: "real option"
  suggestedLeverage :: "jsnum option"
  timestamp :: nat
  status :: Status
  rejectionReason :: "string option"

section \<open>Technical indicators (strategyService.ts, timeframeService.ts)\<close>

text \<open>
  The period arguments are positive integers at every call (9, 14, 20, 21, 200), so a
  period is a \<open>nat\<close>; the indicator functions are used on arrays at least as long as the
  period, where every read of the source is in range.
\<close>

definition calculateSMA :: "real list \<Rightarrow> nat \<Rightarrow> real list" where
  "calculateSMA data period =
     map (\<lambda>idx.
            if int idx < int period - 1 then 0
            else reduce_sum (slice data (idx + 1 - period) (idx + 1)) / real period)
         [0..<length data]"

text \<open>
  The loop of \<open>calculateEMA\<close>: each pass pushes \<open>data[i] * k + ema[i - 1] * (1 - k)\<close>,
  where \<open>ema[i - 1]\<close> is the value pushed by the pass before.
\<close>

fun ema_loop :: "real \<Rightarrow> real \<Rightarrow> real list \<Rightarrow> real list" where
  "ema_loop k prev [] = []"
| "ema_loop k prev (x # xs) = (let e = x * k + prev * (1 - k) in e # ema_loop k e xs)"

text \<open>
  On an empty array the source returns the one-element array \<open>[undefined]\<close>; the
  callers pass at least 200 values.
\<close>

definition calculateEMA :: "real list \<Rightarrow> nat \<Rightarrow> real list" where
  "calculateEMA data period =
     (let k = 2 / (real period + 1)
      in case data of [] \<Rightarrow> [] | x # xs \<Rightarrow> x # ema_loop k x xs)"

text \<open>The first loop of \<open>calculateRSI\<close>, one pass at index \<open>i\<close>, on \<open>(gains, losses)\<close>.\<close>

definition rsi_seed_step :: "real list \<Rightarrow> nat \<Rightarrow> real \<times> real \<Rightarrow> real \<times> real" where
  "rsi_seed_step closes i = (\<lambda>(gains, losses).
     let diff = closes ! i - closes ! (i - 1)
     in if diff \<ge> 0 then (gains + diff, losses) else (gains, losses - diff))"

text \<open>The Wilder update of the second loop, on \<open>(avgGain, avgLoss)\<close>.\<close>

definition rsi_avg_step :: "real list \<Rightarrow> nat \<Rightarrow> nat \<Rightarrow> real \<times> real \<Rightarrow> real \<times> real" where
  "rsi_avg_step closes period i = (\<lambda>(avgGain, avgLoss).
     let diff = closes ! i - closes ! (i - 1);
         gain = (if diff \<ge> 0 then diff else 0);
         loss = (if diff < 0 then - diff else 0)
     in ((avgGain * (real period - 1) + gain) / real period,
         (avgLoss * (real period - 1) + loss) / real period))"

text \<open>The value stored in \<open>rsi[i]\<close>, from the updated \<open>(avgGain, avgLoss)\<close>.\<close>

definition rsi_value :: "real \<times> real \<Rightarrow> real" where
  "rsi_value = (\<lambda>(avgGain, avgLoss).
     let rs = (if avgLoss = 0 then 100 else avgGain / avgLoss)
     in 100 - 100 / (1 + rs))"

text \<open>One pass of the second loop, on \<open>((avgGain, avgLoss), rsi)\<close>.\<close>

definition rsi_step ::
  "real list \<Rightarrow> nat \<Rightarrow> nat \<Rightarrow> (real \<times> real) \<times> real list \<Rightarrow> (real \<times> real) \<times> real list" where
  "rsi_step closes period i = (\<lambda>(avgs, rsi).
     let avgs' = rsi_avg_step closes period i avgs
     in (avgs', rsi[i := rsi_value avgs']))"

text \<open>\<open>avgGain\<close> and \<open>avgLoss\<close> before the second loop.\<close>

definition rsi_seed :: "real list \<Rightarrow> nat \<Rightarrow> real \<times> real" where
  "rsi_seed closes period =
     (let (gains, losses) = fold (rsi_seed_step closes) [1..<period + 1] (0, 0)
      in (gains / real period, losses / real period))"

text \<open>
  When the array has at most \<open>period\<close> elements the first loop reads past its end, but
  the second loop does not run and the result is the array of 50s whatever was read.
\<close>

definition calculateRSI :: "real list \<Rightarrow> nat \<Rightarrow> real list" where
  "calculateRSI closes period =
     snd (fold (rsi_step closes period) [period + 1..<length closes]
            (rsi_seed closes period, replicate (length closes) 50))"

text \<open>
  \<open>avgGain\<close> and \<open>avgLoss\<close> as they stand after the pass at index \<open>i\<close> of the second
  loop (before the loop for \<open>i \<le> period\<close>).
\<close>

definition rsi_avgs :: "real list \<Rightarrow> nat \<Rightarrow> nat \<Rightarrow> real \<times> real" where
  "rsi_avgs closes period i =
     fold (rsi_avg_step closes period) [period + 1..<i + 1] (rsi_seed closes period)"

record band =
  middle :: real
  upper :: real
  lower :: real

definition calculateBollingerBands :: "real list \<Rightarrow> nat \<Rightarrow> real \<Rightarrow> band list" where
  "calculateBollingerBands closes period stdDev =
     map (\<lambda>idx.
            if int idx < int period - 1 then \<lparr>middle = 0, upper = 0, lower = 0\<rparr>
            else
              let sl = slice closes (idx + 1 - period) (idx + 1);
                  mean = reduce_sum sl / real period;
                  variance = foldl (\<lambda>a b. a + (b - mean) ^ 2) 0 sl / real period;
                  sd = sqrt variance
              in \<lparr>middle = mean, upper = mean + stdDev * sd, lower = mean - stdDev * sd\<rparr>)
         [0..<length closes]"

text \<open>The true ranges \<open>trs\<close> of \<open>calculateATR\<close>.\<close>

definition true_ranges :: "Kline list \<Rightarrow> real list" where
  "true_ranges klines =
     map (\<lambda>i.
            let k = klines ! i
            in if i = 0 then high k - low k
               else
                 let hl = high k - low k;
                     hpc = \<bar>high k - close (klines ! (i - 1))\<bar>;
                     lpc = \<bar>low k - close (klines ! (i - 1))\<bar>
                 in max hl (max hpc lpc))
         [0..<length klines]"

text \<open>
  The Wilder moving average shared by the last lines of \<open>calculateATR\<close> and
  \<open>calculateADX\<close>: an array of zeros, the seed at \<open>period - 1\<close>, then the recurrence.
  On an array shorter than \<open>period\<close> the source's write at \<open>period - 1\<close> would grow the
  array; both callers pass at least 50 values with period 14.
\<close>

definition wilder_step :: "real list \<Rightarrow> nat \<Rightarrow> nat \<Rightarrow> real list \<Rightarrow> real list" where
  "wilder_step xs period i out =
     out[i := (out ! (i - 1) * (real period - 1) + xs ! i) / real period]"

definition wilder_average :: "real list \<Rightarrow> nat \<Rightarrow> real list" where
  "wilder_average xs period =
     (let out = replicate (length xs) 0;
          s = reduce_sum (slice xs 0 period);
          out = out[period - 1 := s / real period]
      in fold (wilder_step xs period) [period..<length xs] out)"

definition calculateATR :: "Kline list \<Rightarrow> nat \<Rightarrow> real list" where
  "calculateATR klines period = wilder_average (true_ranges klines) period"

text \<open>One pass of the directional-movement loop of \<open>calculateADX\<close>, on \<open>(plusDM, minusDM)\<close>.\<close>

definition dm_step :: "Kline list \<Rightarrow> nat \<Rightarrow> real list \<times> real list \<Rightarrow> real list \<times> real list" where
  "dm_step klines i = (\<lambda>(plusDM, minusDM).
     let upMove = high (klines ! i) - high (klines ! (i - 1));
         downMove = low (klines ! (i - 1)) - low (klines ! i);
         plusDM = (if upMove > downMove \<and> upMove > 0 then plusDM[i := upMove] else plusDM);
         minusDM = (if downMove > upMove \<and> downMove > 0 then minusDM[i := downMove] else minusDM)
     in (plusDM, minusDM))"

text \<open>\<open>x || 1\<close> on a finite number.\<close>

definition or_one :: "real \<Rightarrow> real" where
  "or_one x = (if x = 0 then 1 else x)"

definition calculateADX :: "Kline list \<Rightarrow> nat \<Rightarrow> real list" where
  "calculateADX klines period =
     (let n = length klines;
          (plusDM, minusDM) = fold (dm_step klines) [1..<n] (replicate n 0, replicate n 0);
          atr = calculateATR klines period;
          plusDI = map (\<lambda>i. 100 * (plusDM ! i / or_one (atr ! i))) [0..<n];
          minusDI = map (\<lambda>i. 100 * (minusDM ! i / or_one (atr ! i))) [0..<n];
          dx = map (\<lambda>i.
                 let p = plusDI ! i;
                     sum = p + minusDI ! i;
                     diff = \<bar>p - minusDI ! i\<bar>
                 in 100 * (diff / or_one sum)) [0..<n]
      in wilder_average dx period)"

text \<open>
  The values of \<open>upMove\<close>, \<open>downMove\<close> and \<open>dx[i]\<close> in \<open>calculateADX\<close>, as functions of
  the index; \<open>calculateADX_eq\<close> below relates them to the loops.
\<close>

definition upMove :: "Kline list \<Rightarrow> nat \<Rightarrow> real" where
  "upMove klines i = high (klines ! i) - high (klines ! (i - 1))"

definition downMove :: "Kline list \<Rightarrow> nat \<Rightarrow> real" where
  "downMove klines i = low (klines ! (i - 1)) - low (klines ! i)"

definition adx_dx :: "Kline list \<Rightarrow> nat \<Rightarrow> nat \<Rightarrow> real" where
  "adx_dx klines period i =
     (let pdm = (if 0 < i \<and> upMove klines i > downMove klines i \<and> upMove klines i > 0
                 then upMove klines i else 0);
          mdm = (if 0 < i \<and> downMove klines i > upMove klines i \<and> downMove klines i > 0
                 then downMove klines i else 0);
          pdi = 100 * (pdm / or_one (calculateATR klines period ! i));
          mdi = 100 * (mdm / or_one (calculateATR klines period ! i))
      in 100 * (\<bar>pdi - mdi\<bar> / or_one (pdi + mdi)))"

section \<open>Regime classifier (timeframeService.ts)\<close>

record Regime =
  timeframes :: "Timeframe list"
  isVolatile :: bool

definition selectSmartTimeframes :: "Kline list \<Rightarrow> Regime" where
  "selectSmartTimeframes klines =
     (if length klines < 50 then \<lparr>timeframes = [TF_15m, TF_1h], isVolatile = False\<rparr>
      else
        let adx = calculateADX klines 14;
            atr = calculateATR klines 14;
            currentADX = adx ! (length adx - 1);
            currentATR = atr ! (length atr - 1);
            avgATR = reduce_sum (slice_last atr 20) / 20;
            isVolatile = (currentATR > avgATR * (18 / 10));
            tfs = (if currentADX < 20 then [TF_5m, TF_15m]
                   else if currentADX > 25 then [TF_1h, TF_4h]
                   else [TF_15m, TF_1h])
        in \<lparr>timeframes = tfs, isVolatile = isVolatile\<rparr>)"

section \<open>Confluence engine (strategyService.ts, \<open>runAllStrategies\<close>)\<close>

record StrategyResult =
  signals :: "Signal list"
  rejections :: "string list"

text \<open>The locals of \<open>runAllStrategies\<close>, each as a function of what it is computed from
  (\<open>last_idx\<close> and \<open>prev_idx\<close> are the source's \<open>last\<close> and \<open>prev\<close>).\<close>

definition isUptrend :: "real list \<Rightarrow> nat \<Rightarrow> bool" where
  "isUptrend closes last_idx =
     (let sma200 = calculateSMA closes 200;
          currentPrice = closes ! last_idx;
          currentSMA200 = sma200 ! last_idx
      in currentPrice > currentSMA200)"

definition emaScore :: "real list \<Rightarrow> nat \<Rightarrow> nat \<Rightarrow> int" where
  "emaScore closes last_idx prev_idx =
     (let ema9 = calculateEMA closes 9;
          ema21 = calculateEMA closes 21
      in if ema9 ! prev_idx \<le> ema21 ! prev_idx \<and> ema9 ! last_idx > ema21 ! last_idx then 1
         else if ema9 ! prev_idx \<ge> ema21 ! prev_idx \<and> ema9 ! last_idx < ema21 ! last_idx then - 1
         else 0)"

definition rsiScore :: "real list \<Rightarrow> nat \<Rightarrow> int" where
  "rsiScore closes last_idx =
     (let rsi = calculateRSI closes 14
      in if rsi ! last_idx < 30 then 1
         else if rsi ! last_idx > 70 then - 1
         else 0)"

definition bbScore :: "real list \<Rightarrow> nat \<Rightarrow> nat \<Rightarrow> int" where
  "bbScore closes last_idx prev_idx =
     (let bands = calculateBollingerBands closes 20 2
      in if closes ! prev_idx < lower (bands ! prev_idx) \<and> closes ! last_idx \<ge> lower (bands ! last_idx) then 1
         else if closes ! prev_idx > upper (bands ! prev_idx) \<and> closes ! last_idx \<le> upper (bands ! last_idx) then - 1
         else 0)"

definition isVolumeConfirmed :: "real list \<Rightarrow> nat \<Rightarrow> bool" where
  "isVolumeConfirmed volumes last_idx =
     (let avgVolume = calculateSMA volumes 20 ! last_idx
      in volumes ! last_idx > avgVolume)"

definition longSignals :: "int \<Rightarrow> int \<Rightarrow> int \<Rightarrow> string list" where
  "longSignals ema rsi bb =
     filter_null
       [if ema = 1 then Some ''EMA Cross'' else None,
        if rsi = 1 then Some ''RSI Oversold'' else None,
        if bb = 1 then Some ''BB Re-entry'' else None]"

definition shortSignals :: "int \<Rightarrow> int \<Rightarrow> int \<Rightarrow> string list" where
  "shortSignals ema rsi bb =
     filter_null
       [if ema = - 1 then Some ''EMA Cross'' else None,
        if rsi = - 1 then Some ''RSI Overbought'' else None,
        if bb = - 1 then Some ''BB Re-entry'' else None]"

text \<open>
  The confluence logic: the final direction, the active strategies and the rejections
  pushed on the way.
\<close>

definition confluence ::
  "string \<Rightarrow> string list \<Rightarrow> string list \<Rightarrow> bool \<Rightarrow> bool
     \<Rightarrow> Direction option \<times> string list \<times> string list" where
  "confluence symb longs shorts uptrend volumeConfirmed =
     (if length longs \<ge> 2 then
        (if \<not> uptrend then
           (None, [],
            [symb @ '': LONG confluence ('' @ join ''+'' longs
               @ '') rejected by SMA 200 trend filter.''])
         else if \<not> volumeConfirmed then
           (None, [], [symb @ '': LONG confluence rejected by Volume filter.''])
         else (Some LONG, longs, []))
      else if length shorts \<ge> 2 then
        (if uptrend then
           (None, [],
            [symb @ '': SHORT confluence ('' @ join ''+'' shorts
               @ '') rejected by SMA 200 trend filter.''])
         else if \<not> volumeConfirmed then
           (None, [], [symb @ '': SHORT confluence rejected by Volume filter.''])
         else (Some SHORT, shorts, []))
      else
        (let activeAny = (if length longs > 0 then longs else shorts)
         in if length activeAny > 0 then
              (None, [],
               [symb @ '': Low confluence ('' @ show_nat (length activeAny)
                  @ ''/2 signals). Strategy ['' @ join '', '' activeAny
                  @ ''] was active but insufficient.''])
            else (None, [], [])))"

text \<open>
  \<open>Date.now()\<close> reads the wall clock; the reading is the argument \<open>now\<close>.
\<close>

definition runAllStrategies :: "nat \<Rightarrow> string \<Rightarrow> Timeframe \<Rightarrow> Kline list \<Rightarrow> StrategyResult" where
  "runAllStrategies now symb tf klines =
     (if length klines < 200 then
        \<lparr>signals = [],
         rejections =
           [''Insufficient history ('' @ show_nat (length klines) @ ''/200) for SuperStrategy'']\<rparr>
      else
        let closes = map close klines;
            volumes = map volume klines;
            last_idx = length klines - 1;
            prev_idx = last_idx - 1;
            currentPrice = closes ! last_idx;
            ema = emaScore closes last_idx prev_idx;
            rsi = rsiScore closes last_idx;
            bb = bbScore closes last_idx prev_idx;
            (finalDirection, activeStrategies, rejs) =
              confluence symb (longSignals ema rsi bb) (shortSignals ema rsi bb)
                (isUptrend closes last_idx) (isVolumeConfirmed volumes last_idx)
        in case finalDirection of
             None \<Rightarrow> \<lparr>signals = [], rejections = rejs\<rparr>
           | Some dir \<Rightarrow>
               let atr = calculateATR klines 14;
                   currentATR = atr ! last_idx;
                   slDistance = currentATR * 2;
                   tpDistance = slDistance * 2
               in \<lparr>signals =
                     [\<lparr>symbol = symb,
                       timeframe = tf,
                       strategyName = ''SuperStrategy ('' @ join '' + '' activeStrategies @ '')'',
                       direction = dir,
                       entry = currentPrice,
                       stopLoss = (if dir = LONG then currentPrice - slDistance
                                   else currentPrice + slDistance),
                       takeProfit = (if dir = LONG then currentPrice + tpDistance
                                     else currentPrice - tpDistance),
                       positionSize = None,
                       suggestedLeverage = None,
                       timestamp = now,
                       status = PENDING,
                       rejectionReason = None\<rparr>],
                   rejections = rejs\<rparr>)"

text \<open>
  The three votes and the signal pushed by \<open>runAllStrategies\<close>, as functions of the candle
  sequence; \<open>runAllStrategies_engine\<close> below relates them to the function.
\<close>

definition emaVote :: "Kline list \<Rightarrow> int" where
  "emaVote klines = emaScore (map close klines) (length klines - 1) (length klines - 1 - 1)"

definition rsiVote :: "Kline list \<Rightarrow> int" where
  "rsiVote klines = rsiScore (map close klines) (length klines - 1)"

definition bbVote :: "Kline list \<Rightarrow> int" where
  "bbVote klines = bbScore (map close klines) (length klines - 1) (length klines - 1 - 1)"

definition emitted :: "nat \<Rightarrow> string \<Rightarrow> Timeframe \<Rightarrow> Kline list \<Rightarrow> Direction \<Rightarrow> string list \<Rightarrow> Signal" where
  "emitted now symb tf klines dir activeStrategies =
     (let currentPrice = map close klines ! (length klines - 1);
          currentATR = calculateATR klines 14 ! (length klines - 1);
          slDistance = currentATR * 2;
          tpDistance = slDistance * 2
      in \<lparr>symbol = symb,
          timeframe = tf,
          strategyName = ''SuperStrategy ('' @ join '' + '' activeStrategies @ '')'',
          direction = dir,
          entry = currentPrice,
          stopLoss = (if dir = LONG then currentPrice - slDistance else currentPrice + slDistance),
          takeProfit = (if dir = LONG then currentPrice + tpDistance else currentPrice - tpDistance),
          positionSize = None,
          suggestedLeverage = None,
          timestamp = now,
          status = PENDING,
          rejectionReason = None\<rparr>)"

section \<open>Risk validator and sizer (\<open>applyRiskManagement\<close> with \<open>RiskResult\<close>)\<close>

record RiskResult =
  isValid :: bool
  signal :: Signal
  reason :: "string option"

text \<open>
  \<open>slPercent\<close> and \<open>requiredLeverage\<close> divide by \<open>entry\<close> and by \<open>balance\<close>, either of
  which may be zero. The other divisors are nonzero where they are used: \<open>slDistance\<close>
  after the first return, and \<open>entry\<close> in the leverage clamp, a zero entry having been
  rejected with an infinite \<open>slPercent\<close>.
\<close>

definition applyRiskManagement :: "Signal \<Rightarrow> real \<Rightarrow> real \<Rightarrow> real \<Rightarrow> RiskResult" where
  "applyRiskManagement sig balance riskPercent maxLeverage =
     (let entry = entry sig;
          sl = stopLoss sig;
          tp = takeProfit sig;
          slDistance = \<bar>entry - sl\<bar>;
          slPercent = js_div slDistance entry
      in if slDistance = 0 then
           \<lparr>isValid = False, signal = sig, reason = Some ''Zero distance Stop Loss detected''\<rparr>
         else if js_lt slPercent (1 / 1000) then
           \<lparr>isValid = False, signal = sig,
            reason = Some ''Unsafe: SL distance too small (Market Noise)''\<rparr>
         else if js_gt slPercent (10 / 100) then
           \<lparr>isValid = False, signal = sig,
            reason = Some ''Unsafe: SL distance too large (Extreme Volatility)''\<rparr>
         else
           let tpDistance = \<bar>tp - entry\<bar>;
               rrRatio = tpDistance / slDistance
           in if rrRatio < 2 then
                \<lparr>isValid = False, signal = sig,
                 reason = Some (''Rejected: R/R Ratio too low ('' @ toFixed2 rrRatio @ '' < 2.0)'')\<rparr>
              else
                let effectiveRiskPercent = min riskPercent 5;
                    riskAmount = balance * (effectiveRiskPercent / 100);
                    positionSize = riskAmount / slDistance;
                    positionValue = positionSize * entry;
                    requiredLeverage = js_div positionValue balance;
                    suggestedLeverage = js_ceil requiredLeverage;
                    (suggestedLeverage, positionSize) =
                      (if js_gt suggestedLeverage maxLeverage
                       then (Num maxLeverage, balance * maxLeverage / entry)
                       else (suggestedLeverage, positionSize));
                    suggestedLeverage = js_max 1 suggestedLeverage
                in \<lparr>isValid = True,
                    signal = sig\<lparr>positionSize := Some (toFixed6 positionSize),
                                  suggestedLeverage := Some suggestedLeverage\<rparr>,
                    reason = None\<rparr>)"

section \<open>Example inputs\<close>

text \<open>A candidate signal with the given direction, entry, stop-loss and take-profit.\<close>

definition candidate :: "Direction \<Rightarrow> real \<Rightarrow> real \<Rightarrow> real \<Rightarrow> Signal" where
  "candidate dir e s t =
     \<lparr>symbol = ''BTCUSDT'', timeframe = TF_15m,
      strategyName = ''SuperStrategy (EMA Cross + RSI Oversold)'',
      direction = dir, entry = e, stopLoss = s, takeProfit = t,
      positionSize = None, suggestedLeverage = None, timestamp = 0,
      status = PENDING, rejectionReason = None\<rparr>"

text \<open>
  Candle series given by their high, low, close and volume as functions of the bar index
  (the open is the close; no function reads it).
\<close>

definition bars ::
  "(nat \<Rightarrow> real) \<Rightarrow> (nat \<Rightarrow> real) \<Rightarrow> (nat \<Rightarrow> real) \<Rightarrow> (nat \<Rightarrow> real) \<Rightarrow> nat \<Rightarrow> Kline list" where
  "bars hi lo cl vol n =
     map (\<lambda>i. \<lparr>time = i, open = cl i, high = hi i, low = lo i, close = cl i, volume = vol i\<rparr>)
       [0..<n]"

text \<open>
  Fifty bars each: identical bars; identical bars but a last bar with a wide range; bars
  that rise by 1 each; and flat bars followed by rises at bars 45, 46, 48 and 49.
\<close>

definition ranging_klines :: "Kline list" where
  "ranging_klines = bars (\<lambda>i. 101) (\<lambda>i. 100) (\<lambda>i. 100) (\<lambda>i. 1) 50"

definition spike_klines :: "Kline list" where
  "spike_klines = bars (\<lambda>i. if i = 49 then 130 else 101) (\<lambda>i. 100) (\<lambda>i. 100) (\<lambda>i. 1) 50"

definition trending_klines :: "Kline list" where
  "trending_klines = bars (\<lambda>i. 101 + real i) (\<lambda>i. 100 + real i) (\<lambda>i. 100 + real i) (\<lambda>i. 1) 50"

definition transition_level :: "nat \<Rightarrow> real" where
  "transition_level i =
     (if i < 45 then 0 else if i < 46 then 1 else if i < 48 then 2 else if i < 49 then 3 else 4)"

definition transition_klines :: "Kline list" where
  "transition_klines =
     bars (\<lambda>i. 101 + transition_level i) (\<lambda>i. 100 + transition_level i)
       (\<lambda>i. 100 + transition_level i) (\<lambda>i. 1) 50"

text \<open>
  A series of 201 bars whose closes jump from 50 to 100 after the first bar, stay at 100 and
  end one hundred-thousandth lower, on a doubled volume: the last bar takes EMA(9) below
  EMA(21) while the RSI is still above 70. In \<open>cross_klines\<close> each bar spans from the
  previous close to its own; in \<open>pinned_klines\<close> the high and the low of each bar are both
  the previous close.
\<close>

definition cross_close :: "nat \<Rightarrow> real" where
  "cross_close i = (if i = 0 then 50 else if i < 200 then 100 else 100 - 1 / 100000)"

definition cross_volume :: "nat \<Rightarrow> real" where
  "cross_volume i = (if i < 200 then 1 else 2)"

definition cross_klines :: "Kline list" where
  "cross_klines =
     bars (\<lambda>i. max (cross_close (i - 1)) (cross_close i))
       (\<lambda>i. min (cross_close (i - 1)) (cross_close i)) cross_close cross_volume 201"

definition pinned_klines :: "Kline list" where
  "pinned_klines =
     bars (\<lambda>i. cross_close (i - 1)) (\<lambda>i. cross_close (i - 1)) cross_close cross_volume 201"

definition cross_closes :: "real list" where
  "cross_closes = map cross_close [0..<201]"

definition cross_volumes :: "real list" where
  "cross_volumes = map cross_volume [0..<201]"

text \<open>
  Two series of 200 bars: constant closes; and closes 100, 102, 101, 101, ...
  And sixteen closes, fifteen at 100 and a last one at 99.
\<close>

definition flat_klines :: "Kline list" where
  "flat_klines = bars (\<lambda>i. 100) (\<lambda>i. 100) (\<lambda>i. 100) (\<lambda>i. 1) 200"

definition quiet_close :: "nat \<Rightarrow> real" where
  "quiet_close i = (if i = 0 then 100 else if i = 1 then 102 else 101)"

definition quiet_klines :: "Kline list" where
  "quiet_klines = bars quiet_close quiet_close quiet_close (\<lambda>i. 1) 200"

definition quiet_closes :: "real list" where
  "quiet_closes = map quiet_close [0..<200]"

definition dip_closes :: "real list" where
  "dip_closes = replicate 15 100 @ [99]"

section \<open>Sums and ranges\<close>

lemma foldl_plus_sum_list: "foldl (\<lambda>a b. a + b) (a::real) xs = a + sum_list xs"
  by (induction xs arbitrary: a) simp_all

lemma reduce_sum_eq: "reduce_sum xs = sum_list xs"
  by (simp add: reduce_sum_def foldl_plus_sum_list)

lemma sum_list_const_on:
  "(\<And>x. x \<in> set xs \<Longrightarrow> f x = (c::real)) \<Longrightarrow> sum_list (map f xs) = real (length xs) * c"
  by (induction xs) (simp_all add: algebra_simps)

lemma sum_list_take_upt:
  "k \<le> length xs \<Longrightarrow> sum_list (take k xs) = sum_list (map ((!) xs) [0..<k])"
  by (metis (no_types) map_nth take_map take_upt add_0 nth_take_lemma length_take min.absorb2 length_map length_upt diff_zero take_all order_refl) 

lemma sum_list_drop_upt:
  "sum_list (drop k xs) = sum_list (map ((!) xs) [k..<length xs])"
  by (metis drop_map drop_upt map_nth add_0 add.commute)

lemma sum_list_const_upt:
  "(\<And>i. a \<le> i \<Longrightarrow> i < b \<Longrightarrow> f i = (c::real)) \<Longrightarrow> sum_list (map f [a..<b]) = real (b - a) * c"
  using sum_list_const_on [of "[a..<b]" f c] by simp

lemma sum_list_upt_last:
  "a \<le> b \<Longrightarrow> sum_list (map f [a..<Suc b]) = sum_list (map f [a..<b]) + (f b :: real)"
  by simp

lemma sum_list_upt_first:
  "a < b \<Longrightarrow> sum_list (map f [a..<b]) = (f a :: real) + sum_list (map f [Suc a..<b])"
  by (simp add: upt_conv_Cons)

section \<open>The Wilder average\<close>

lemma fold_wilder_length: "length (fold (wilder_step xs p) is out) = length out"
  by (induction "is" arbitrary: out) (simp_all add: wilder_step_def)

lemma fold_wilder_upt:
  assumes "a \<le> b" "b \<le> length out" "0 < a"
  shows "(\<forall>i. i < a \<or> b \<le> i \<longrightarrow> fold (wilder_step xs p) [a..<b] out ! i = out ! i)
       \<and> (\<forall>i. a \<le> i \<and> i < b \<longrightarrow>
             fold (wilder_step xs p) [a..<b] out ! i =
               (fold (wilder_step xs p) [a..<b] out ! (i - 1) * (real p - 1) + xs ! i) / real p)"
  using assms
proof (induction b)
  case 0
  then show ?case by simp
next
  case (Suc b)
  show ?case
  proof (cases "a = Suc b")
    case True
    then show ?thesis by simp
  next
    case False
    with Suc.prems have ab: "a \<le> b" and bl: "b \<le> length out" "b < length out" by simp_all
    define r where "r = fold (wilder_step xs p) [a..<b] out"
    have ih1: "\<And>i. i < a \<or> b \<le> i \<Longrightarrow> r ! i = out ! i"
      and ih2: "\<And>i. a \<le> i \<and> i < b \<Longrightarrow> r ! i = (r ! (i - 1) * (real p - 1) + xs ! i) / real p"
      using Suc.IH [OF ab bl(1) Suc.prems(3)] unfolding r_def by blast+
    have len: "length r = length out" unfolding r_def by (rule fold_wilder_length)
    have step: "fold (wilder_step xs p) [a..<Suc b] out = r[b := (r ! (b - 1) * (real p - 1) + xs ! b) / real p]"
      using ab by (simp add: r_def wilder_step_def)
    show ?thesis
      unfolding step
    proof (intro conjI allI impI)
      fix i assume "i < a \<or> Suc b \<le> i"
      then show "r[b := (r ! (b - 1) * (real p - 1) + xs ! b) / real p] ! i = out ! i"
        using ab ih1 by (auto simp: nth_list_update)
    next
      fix i assume h: "a \<le> i \<and> i < Suc b"
      show "r[b := (r ! (b - 1) * (real p - 1) + xs ! b) / real p] ! i =
          (r[b := (r ! (b - 1) * (real p - 1) + xs ! b) / real p] ! (i - 1) * (real p - 1) + xs ! i) / real p"
      proof (cases "i = b")
        case True
        with h Suc.prems(3) have "b - 1 \<noteq> b" by simp
        with True bl len show ?thesis by (simp add: nth_list_update)
      next
        case False
        with h have ib: "i < b" by simp
        with h Suc.prems(3) have "i - 1 \<noteq> b" "i \<noteq> b" by simp_all
        then show ?thesis using ih2 [of i] h ib by (simp add: nth_list_update)
      qed
    qed
  qed
qed

lemma wilder_average_length [simp]: "length (wilder_average xs p) = length xs"
  by (simp add: wilder_average_def Let_def fold_wilder_length)

lemma wilder_average_seed:
  assumes "0 < p" "p \<le> length xs"
  shows "wilder_average xs p ! (p - 1) = sum_list (take p xs) / real p"
proof -
  have "fold (wilder_step xs p) [p..<length xs]
          ((replicate (length xs) 0)[p - 1 := sum_list (take p xs) / real p]) ! (p - 1)
        = ((replicate (length xs) 0)[p - 1 := sum_list (take p xs) / real p]) ! (p - 1)"
    using fold_wilder_upt [of p "length xs" "(replicate (length xs) 0)[p - 1 := sum_list (take p xs) / real p]" xs p] assms
    by simp
  then show ?thesis using assms
    by (simp add: wilder_average_def Let_def reduce_sum_eq slice_def)
qed

lemma wilder_average_before:
  assumes "0 < p" "p \<le> length xs" "i < p - 1"
  shows "wilder_average xs p ! i = 0"
proof -
  have "fold (wilder_step xs p) [p..<length xs]
          ((replicate (length xs) 0)[p - 1 := sum_list (take p xs) / real p]) ! i
        = ((replicate (length xs) 0)[p - 1 := sum_list (take p xs) / real p]) ! i"
    using fold_wilder_upt [of p "length xs" "(replicate (length xs) 0)[p - 1 := sum_list (take p xs) / real p]" xs p] assms
    by simp
  then show ?thesis using assms
    by (simp add: wilder_average_def Let_def reduce_sum_eq slice_def)
qed

lemma wilder_average_step:
  assumes "0 < p" "p \<le> i" "i < length xs"
  shows "wilder_average xs p ! i = (wilder_average xs p ! (i - 1) * (real p - 1) + xs ! i) / real p"
  using fold_wilder_upt [of p "length xs" "(replicate (length xs) 0)[p - 1 := sum_list (take p xs) / real p]" xs p] assms
  by (simp add: wilder_average_def Let_def reduce_sum_eq slice_def)

text \<open>An invariant of the Wilder average: true of the seed and kept by every step.\<close>

lemma wilder_average_induct:
  assumes p: "0 < p" "p \<le> length xs"
    and seed: "P (p - 1) (sum_list (take p xs) / real p)"
    and step: "\<And>i v. p \<le> i \<Longrightarrow> i < length xs \<Longrightarrow> P (i - 1) v \<Longrightarrow>
                 P i ((v * (real p - 1) + xs ! i) / real p)"
    and i: "p - 1 \<le> i" "i < length xs"
  shows "P i (wilder_average xs p ! i)"
  using i
proof (induction i)
  case 0
  with p have "p - 1 = 0" by simp
  with seed wilder_average_seed [OF p] show ?case by simp
next
  case (Suc i)
  show ?case
  proof (cases "p - 1 = Suc i")
    case True
    with seed wilder_average_seed [OF p] show ?thesis by simp
  next
    case False
    with Suc.prems have pi: "p \<le> Suc i" "p - 1 \<le> i" "i < length xs" by simp_all
    from Suc.IH [OF pi(2,3)] have "P (Suc i - 1) (wilder_average xs p ! i)" by simp
    from step [OF pi(1) Suc.prems(2) this] wilder_average_step [OF p(1) pi(1) Suc.prems(2)]
    show ?thesis by simp
  qed
qed

lemma wilder_average_seed_upt:
  assumes "0 < p" "p \<le> length xs"
  shows "wilder_average xs p ! (p - 1) = sum_list (map ((!) xs) [0..<p]) / real p"
  using wilder_average_seed [OF assms] sum_list_take_upt [OF assms(2)] by simp

lemma wilder_average_nonneg:
  assumes p: "0 < p" "p \<le> length xs"
    and nn: "\<And>j. j < length xs \<Longrightarrow> 0 \<le> xs ! j"
    and i: "i < length xs"
  shows "0 \<le> wilder_average xs p ! i"
proof (cases "i < p - 1")
  case True
  with wilder_average_before [OF p] show ?thesis by simp
next
  case False
  then have pi: "p - 1 \<le> i" by simp
  show ?thesis
  proof (rule wilder_average_induct [OF p _ _ pi i, where P = "\<lambda>_ v. 0 \<le> v"])
    have "0 \<le> sum_list (take p xs)"
      using nn p by (intro sum_list_nonneg) (auto simp: in_set_conv_nth)
    then show "0 \<le> sum_list (take p xs) / real p" by simp
  next
    fix j v assume "p \<le> j" "j < length xs" "0 \<le> (v::real)"
    with nn [of j] p show "0 \<le> (v * (real p - 1) + xs ! j) / real p" by simp
  qed
qed

lemma wilder_average_seed_const:
  assumes "0 < p" "p \<le> length xs" "\<And>i. i < p \<Longrightarrow> xs ! i = c"
  shows "sum_list (take p xs) / real p = c"
proof -
  have "sum_list (take p xs) = sum_list (map ((!) xs) [0..<p])"
    by (rule sum_list_take_upt) (rule assms(2))
  also have "\<dots> = real (p - 0) * c"
    by (rule sum_list_const_upt) (simp add: assms(3))
  finally show ?thesis using assms(1) by simp
qed

section \<open>The loops of the EMA and of the RSI\<close>

lemma ema_loop_length [simp]: "length (ema_loop k prev xs) = length xs"
  by (induction xs arbitrary: prev) (simp_all add: Let_def)

lemma ema_loop_nth:
  "i < length xs \<Longrightarrow>
   ema_loop k prev xs ! i = xs ! i * k + (if i = 0 then prev else ema_loop k prev xs ! (i - 1)) * (1 - k)"
proof (induction xs arbitrary: prev i)
  case Nil
  then show ?case by simp
next
  case (Cons x xs)
  show ?case
  proof (cases i)
    case 0
    then show ?thesis by (simp add: Let_def)
  next
    case (Suc j)
    with Cons.prems have j: "j < length xs" by simp
    show ?thesis using Cons.IH [OF j] Suc by (cases j) (simp_all add: Let_def)
  qed
qed

lemma calculateEMA_length [simp]: "length (calculateEMA data p) = length data"
  by (cases data) (simp_all add: calculateEMA_def Let_def)

lemma calculateEMA_0: "data \<noteq> [] \<Longrightarrow> calculateEMA data p ! 0 = data ! 0"
  by (cases data) (simp_all add: calculateEMA_def Let_def)

lemma calculateEMA_Suc:
  "Suc i < length data \<Longrightarrow>
   calculateEMA data p ! Suc i =
     data ! Suc i * (2 / (real p + 1)) + calculateEMA data p ! i * (1 - 2 / (real p + 1))"
proof (cases data)
  case Nil
  then show "Suc i < length data \<Longrightarrow> ?thesis" by simp
next
  case (Cons x xs)
  assume "Suc i < length data"
  with Cons have i: "i < length xs" by simp
  show ?thesis using ema_loop_nth [OF i, of "2 / (real p + 1)" x] Cons
    by (cases i) (simp_all add: calculateEMA_def Let_def)
qed

lemma calculateEMA_induct:
  assumes ne: "data \<noteq> []"
    and seed: "P 0 (data ! 0)"
    and step: "\<And>i v. Suc i < length data \<Longrightarrow> P i v \<Longrightarrow>
                 P (Suc i) (data ! Suc i * (2 / (real p + 1)) + v * (1 - 2 / (real p + 1)))"
    and i: "i < length data"
  shows "P i (calculateEMA data p ! i)"
  using i
proof (induction i)
  case 0
  with seed calculateEMA_0 [OF ne] show ?case by simp
next
  case (Suc i)
  then have "P i (calculateEMA data p ! i)" by simp
  from step [OF Suc.prems this] calculateEMA_Suc [OF Suc.prems] show ?case by simp
qed

lemma fold_rsi_step_length:
  "length (snd (fold (rsi_step closes p) is (s, r))) = length r"
  by (induction "is" arbitrary: s r) (simp_all add: rsi_step_def Let_def split_beta)

lemma fold_rsi_step_fst:
  "fst (fold (rsi_step closes p) is (s, r)) = fold (rsi_avg_step closes p) is s"
  by (induction "is" arbitrary: s r) (simp_all add: rsi_step_def Let_def split_beta)

lemma fold_rsi_step_nth:
  assumes "b \<le> length r"
  shows "snd (fold (rsi_step closes p) [a..<b] (s, r)) ! i =
           (if a \<le> i \<and> i < b then rsi_value (fold (rsi_avg_step closes p) [a..<Suc i] s)
            else r ! i)"
  using assms
proof (induction b arbitrary: i)
  case 0
  then show ?case by simp
next
  case (Suc b)
  show ?case
  proof (cases "a \<le> b")
    case False
    then show ?thesis by simp
  next
    case True
    define st where "st = fold (rsi_step closes p) [a..<b] (s, r)"
    have f: "fst st = fold (rsi_avg_step closes p) [a..<b] s"
      unfolding st_def by (rule fold_rsi_step_fst)
    have l: "length (snd st) = length r"
      unfolding st_def by (rule fold_rsi_step_length)
    have ih: "snd st ! i = (if a \<le> i \<and> i < b then rsi_value (fold (rsi_avg_step closes p) [a..<Suc i] s)
            else r ! i)" for i
      unfolding st_def using Suc.IH [of i] Suc.prems by simp
    have step: "fold (rsi_step closes p) [a..<Suc b] (s, r) = rsi_step closes p b st"
      using True by (simp add: st_def)
    have sn: "snd (rsi_step closes p b st) = (snd st)[b := rsi_value (rsi_avg_step closes p b (fst st))]"
      by (simp add: rsi_step_def Let_def split_beta)
    have av: "rsi_avg_step closes p b (fst st) = fold (rsi_avg_step closes p) [a..<Suc b] s"
      using True f by simp
    show ?thesis
      unfolding step sn av using ih [of i] l Suc.prems True
      by (auto simp: nth_list_update)
  qed
qed

lemma calculateRSI_length [simp]: "length (calculateRSI closes p) = length closes"
  by (simp add: calculateRSI_def fold_rsi_step_length)

lemma calculateRSI_nth:
  "i < length closes \<Longrightarrow>
   calculateRSI closes p ! i = (if p < i then rsi_value (rsi_avgs closes p i) else 50)"
  unfolding calculateRSI_def rsi_avgs_def
  by (subst fold_rsi_step_nth) auto

lemma rsi_avgs_seed: "i \<le> p \<Longrightarrow> rsi_avgs closes p i = rsi_seed closes p"
  by (simp add: rsi_avgs_def)

lemma rsi_avgs_Suc:
  "p \<le> i \<Longrightarrow> rsi_avgs closes p (Suc i) = rsi_avg_step closes p (Suc i) (rsi_avgs closes p i)"
  by (simp add: rsi_avgs_def)

lemma fold_rsi_seed_step:
  "fold (rsi_seed_step closes) is (g, l) =
     (g + sum_list (map (\<lambda>i. max (closes ! i - closes ! (i - 1)) 0) is),
      l + sum_list (map (\<lambda>i. max (closes ! (i - 1) - closes ! i) 0) is))"
  by (induction "is" arbitrary: g l) (auto simp: rsi_seed_step_def Let_def max_def)

lemma rsi_seed_eq:
  "rsi_seed closes p =
     (sum_list (map (\<lambda>i. max (closes ! i - closes ! (i - 1)) 0) [1..<p + 1]) / real p,
      sum_list (map (\<lambda>i. max (closes ! (i - 1) - closes ! i) 0) [1..<p + 1]) / real p)"
  by (simp add: rsi_seed_def fold_rsi_seed_step)

section \<open>True ranges and directional movement\<close>

lemma fold_dm_step_length:
  "length (fst (fold (dm_step ks) is (P, M))) = length P"
  "length (snd (fold (dm_step ks) is (P, M))) = length M"
  by (induction "is" arbitrary: P M) (simp_all add: dm_step_def Let_def)

lemma fold_dm_step_nth:
  assumes "b \<le> length P" "b \<le> length M"
  shows "fst (fold (dm_step ks) [a..<b] (P, M)) ! i =
           (if a \<le> i \<and> i < b \<and> upMove ks i > downMove ks i \<and> upMove ks i > 0
            then upMove ks i else P ! i)
       \<and> snd (fold (dm_step ks) [a..<b] (P, M)) ! i =
           (if a \<le> i \<and> i < b \<and> downMove ks i > upMove ks i \<and> downMove ks i > 0
            then downMove ks i else M ! i)"
  using assms
proof (induction b)
  case 0
  then show ?case by simp
next
  case (Suc b)
  show ?case
  proof (cases "a \<le> b")
    case False
    then show ?thesis by simp
  next
    case True
    define st where "st = fold (dm_step ks) [a..<b] (P, M)"
    have l: "length (fst st) = length P" "length (snd st) = length M"
      unfolding st_def by (rule fold_dm_step_length)+
    have ih: "fst st ! i =
           (if a \<le> i \<and> i < b \<and> upMove ks i > downMove ks i \<and> upMove ks i > 0
            then upMove ks i else P ! i)"
       "snd st ! i =
           (if a \<le> i \<and> i < b \<and> downMove ks i > upMove ks i \<and> downMove ks i > 0
            then downMove ks i else M ! i)"
      unfolding st_def using Suc.IH Suc.prems by simp_all
    have step: "fold (dm_step ks) [a..<Suc b] (P, M) = dm_step ks b st"
      using True by (simp add: st_def)
    have d: "dm_step ks b st =
       (if upMove ks b > downMove ks b \<and> upMove ks b > 0 then (fst st)[b := upMove ks b] else fst st,
        if downMove ks b > upMove ks b \<and> downMove ks b > 0 then (snd st)[b := downMove ks b] else snd st)"
      by (simp add: dm_step_def Let_def split_beta upMove_def downMove_def)
    show ?thesis
      unfolding step d using ih l Suc.prems True
      by (auto simp: nth_list_update)
  qed
qed

lemma calculateADX_eq:
  "calculateADX ks p = wilder_average (map (adx_dx ks p) [0..<length ks]) p"
proof -
  have "fst (fold (dm_step ks) [1..<length ks] (replicate (length ks) 0, replicate (length ks) 0)) ! i
          = (if 0 < i \<and> upMove ks i > downMove ks i \<and> upMove ks i > 0 then upMove ks i else 0)"
     and "snd (fold (dm_step ks) [1..<length ks] (replicate (length ks) 0, replicate (length ks) 0)) ! i
          = (if 0 < i \<and> downMove ks i > upMove ks i \<and> downMove ks i > 0 then downMove ks i else 0)"
    if "i < length ks" for i
    using that fold_dm_step_nth [of "length ks" "replicate (length ks) 0" "replicate (length ks) 0" ks 1 i]
    by (auto simp: Suc_le_eq)
  then show ?thesis
    unfolding calculateADX_def Let_def split_beta adx_dx_def
    by (intro arg_cong2 [where f = wilder_average] refl map_cong) simp_all
qed

lemma calculateATR_length [simp]: "length (calculateATR ks p) = length ks"
  by (simp add: calculateATR_def true_ranges_def)

lemma calculateADX_length [simp]: "length (calculateADX ks p) = length ks"
  by (simp add: calculateADX_eq)

lemma true_ranges_nth:
  "i < length ks \<Longrightarrow>
   true_ranges ks ! i =
     (if i = 0 then high (ks ! 0) - low (ks ! 0)
      else max (high (ks ! i) - low (ks ! i))
             (max \<bar>high (ks ! i) - close (ks ! (i - 1))\<bar> \<bar>low (ks ! i) - close (ks ! (i - 1))\<bar>))"
  by (auto simp: true_ranges_def Let_def)

lemma true_ranges_length [simp]: "length (true_ranges ks) = length ks"
  by (simp add: true_ranges_def)

lemma adx_dx_none:
  assumes "i = 0 \<or> (upMove ks i \<le> downMove ks i \<or> upMove ks i \<le> 0)
                  \<and> (downMove ks i \<le> upMove ks i \<or> downMove ks i \<le> 0)"
  shows "adx_dx ks p i = 0"
  using assms by (auto simp: adx_dx_def Let_def or_one_def)

lemma adx_dx_up:
  assumes "0 < i" "upMove ks i > downMove ks i" "upMove ks i > 0" "0 \<le> calculateATR ks p ! i"
  shows "adx_dx ks p i = 100"
proof -
  have o: "0 < or_one (calculateATR ks p ! i)" using assms(4) by (simp add: or_one_def)
  have pos: "0 < 100 * (upMove ks i / or_one (calculateATR ks p ! i))"
    using assms(3) o by simp
  show ?thesis using assms pos by (simp add: adx_dx_def Let_def or_one_def)
qed

section \<open>The regime classifier on the example series\<close>

lemma bars_length [simp]: "length (bars hi lo cl vol n) = n"
  by (simp add: bars_def)

lemma bars_nth [simp]:
  "i < n \<Longrightarrow> high (bars hi lo cl vol n ! i) = hi i"
  "i < n \<Longrightarrow> low (bars hi lo cl vol n ! i) = lo i"
  "i < n \<Longrightarrow> close (bars hi lo cl vol n ! i) = cl i"
  "i < n \<Longrightarrow> volume (bars hi lo cl vol n ! i) = vol i"
  by (simp_all add: bars_def)

lemma bars_moves:
  "i < n \<Longrightarrow> upMove (bars hi lo cl vol n) i = hi i - hi (i - 1)"
  "i < n \<Longrightarrow> downMove (bars hi lo cl vol n) i = lo (i - 1) - lo i"
  by (simp_all add: upMove_def downMove_def)

lemma bars_true_range:
  "i < n \<Longrightarrow>
   true_ranges (bars hi lo cl vol n) ! i =
     (if i = 0 then hi 0 - lo 0
      else max (hi i - lo i) (max \<bar>hi i - cl (i - 1)\<bar> \<bar>lo i - cl (i - 1)\<bar>))"
  by (simp add: true_ranges_nth)

lemma bars_atr_nonneg:
  assumes "lo 0 \<le> hi 0" "0 < p" "p \<le> n" "i < n"
  shows "0 \<le> calculateATR (bars hi lo cl vol n) p ! i"
  unfolding calculateATR_def
proof (rule wilder_average_nonneg)
  fix j assume "j < length (true_ranges (bars hi lo cl vol n))"
  then have j: "j < n" by simp
  show "0 \<le> true_ranges (bars hi lo cl vol n) ! j"
    using assms(1) by (simp add: bars_true_range [OF j] le_max_iff_disj)
qed (use assms in simp_all)

subsection \<open>The ranging example\<close>

lemma ranging_length [simp]: "length ranging_klines = 50"
  by (simp add: ranging_klines_def)

lemma ranging_tr: "i < 50 \<Longrightarrow> true_ranges ranging_klines ! i = 1"
  by (simp add: ranging_klines_def bars_true_range)

lemma ranging_atr: "13 \<le> i \<Longrightarrow> i < 50 \<Longrightarrow> calculateATR ranging_klines 14 ! i = 1"
  unfolding calculateATR_def
proof (rule wilder_average_induct [where P = "\<lambda>_ v. v = 1"])
  show "sum_list (take 14 (true_ranges ranging_klines)) / real 14 = 1"
    by (rule wilder_average_seed_const) (simp_all add: ranging_tr)
next
  fix j v assume "14 \<le> j" "j < length (true_ranges ranging_klines)" "v = (1::real)"
  then show "(v * (real 14 - 1) + true_ranges ranging_klines ! j) / real 14 = 1"
    by (simp add: ranging_tr)
qed simp_all

lemma ranging_dx: "i < 50 \<Longrightarrow> adx_dx ranging_klines 14 i = 0"
  by (rule adx_dx_none) (simp add: ranging_klines_def bars_moves)

lemma ranging_adx: "calculateADX ranging_klines 14 ! 49 = 0"
  unfolding calculateADX_eq
proof (rule wilder_average_induct [where P = "\<lambda>_ v. v = 0"])
  show "sum_list (take 14 (map (adx_dx ranging_klines 14) [0..<length ranging_klines])) / real 14 = 0"
    by (rule wilder_average_seed_const) (simp_all add: ranging_dx)
next
  fix j v assume "14 \<le> j" "j < length (map (adx_dx ranging_klines 14) [0..<length ranging_klines])" "v = (0::real)"
  then show "(v * (real 14 - 1) + map (adx_dx ranging_klines 14) [0..<length ranging_klines] ! j) / real 14 = 0"
    by (simp add: ranging_dx)
qed simp_all

lemma ranging_atr_sum: "sum_list (slice_last (calculateATR ranging_klines 14) 20) = 20"
proof -
  have "sum_list (slice_last (calculateATR ranging_klines 14) 20)
      = sum_list (map ((!) (calculateATR ranging_klines 14)) [30..<50])"
    unfolding slice_last_def sum_list_drop_upt by simp
  also have "\<dots> = real (50 - 30) * 1"
    by (rule sum_list_const_upt) (simp add: ranging_atr)
  finally show ?thesis by simp
qed

subsection \<open>The spike example\<close>

lemma spike_length [simp]: "length spike_klines = 50"
  by (simp add: spike_klines_def)

lemma spike_tr: "i < 50 \<Longrightarrow> true_ranges spike_klines ! i = (if i = 49 then 30 else 1)"
  by (simp add: spike_klines_def bars_true_range)

lemma spike_atr: "13 \<le> i \<Longrightarrow> i < 50 \<Longrightarrow> calculateATR spike_klines 14 ! i = (if i = 49 then 43 / 14 else 1)"
  unfolding calculateATR_def
proof (rule wilder_average_induct [where P = "\<lambda>i v. v = (if i = 49 then 43 / 14 else 1)"])
  have "sum_list (take 14 (true_ranges spike_klines)) / real 14 = 1"
    by (rule wilder_average_seed_const) (simp_all add: spike_tr)
  then show "sum_list (take 14 (true_ranges spike_klines)) / real 14 = (if 14 - 1 = (49::nat) then 43 / 14 else 1)"
    by simp
next
  fix j v assume "14 \<le> j" "j < length (true_ranges spike_klines)" "v = (if j - 1 = 49 then 43 / 14 else (1::real))"
  then show "(v * (real 14 - 1) + true_ranges spike_klines ! j) / real 14 = (if j = 49 then 43 / 14 else 1)"
    by (auto simp: spike_tr)
qed simp_all

lemma spike_dx: "i < 50 \<Longrightarrow> adx_dx spike_klines 14 i = (if i = 49 then 100 else 0)"
proof (cases "i = 49")
  case True
  have "adx_dx spike_klines 14 49 = 100"
    by (rule adx_dx_up) (simp_all add: spike_atr, simp_all add: spike_klines_def bars_moves)
  with True show ?thesis by simp
next
  case False
  assume "i < 50"
  with False have "adx_dx spike_klines 14 i = 0"
    by (intro adx_dx_none) (simp add: spike_klines_def bars_moves)
  with False show ?thesis by simp
qed

lemma spike_adx: "13 \<le> i \<Longrightarrow> i < 50 \<Longrightarrow> calculateADX spike_klines 14 ! i = (if i = 49 then 100 / 14 else 0)"
  unfolding calculateADX_eq
proof (rule wilder_average_induct [where P = "\<lambda>i v. v = (if i = 49 then 100 / 14 else 0)"])
  have "sum_list (take 14 (map (adx_dx spike_klines 14) [0..<length spike_klines])) / real 14 = 0"
    by (rule wilder_average_seed_const) (simp_all add: spike_dx)
  then show "sum_list (take 14 (map (adx_dx spike_klines 14) [0..<length spike_klines])) / real 14
      = (if 14 - 1 = (49::nat) then 100 / 14 else 0)"
    by simp
next
  fix j v assume "14 \<le> j" "j < length (map (adx_dx spike_klines 14) [0..<length spike_klines])"
    "v = (if j - 1 = 49 then 100 / 14 else (0::real))"
  then show "(v * (real 14 - 1) + map (adx_dx spike_klines 14) [0..<length spike_klines] ! j) / real 14
      = (if j = 49 then 100 / 14 else 0)"
    by (auto simp: spike_dx)
qed simp_all

lemma spike_atr_sum: "sum_list (slice_last (calculateATR spike_klines 14) 20) = 19 + 43 / 14"
proof -
  have "sum_list (slice_last (calculateATR spike_klines 14) 20)
      = sum_list (map ((!) (calculateATR spike_klines 14)) [30..<50])"
    unfolding slice_last_def sum_list_drop_upt by simp
  also have "\<dots> = sum_list (map ((!) (calculateATR spike_klines 14)) [30..<49])
      + calculateATR spike_klines 14 ! 49"
    using sum_list_upt_last [of 30 49 "(!) (calculateATR spike_klines 14)"] by simp
  also have "sum_list (map ((!) (calculateATR spike_klines 14)) [30..<49]) = real (49 - 30) * 1"
    by (rule sum_list_const_upt) (simp add: spike_atr)
  also have "calculateATR spike_klines 14 ! 49 = 43 / 14" by (simp add: spike_atr)
  finally show ?thesis by simp
qed

subsection \<open>The trending example\<close>

lemma trending_length [simp]: "length trending_klines = 50"
  by (simp add: trending_klines_def)

lemma trending_tr: "i < 50 \<Longrightarrow> true_ranges trending_klines ! i = (if i = 0 then 1 else 2)"
  by (auto simp: trending_klines_def bars_true_range of_nat_diff)

lemma trending_atr_nonneg: "i < 50 \<Longrightarrow> 0 \<le> calculateATR trending_klines 14 ! i"
  unfolding trending_klines_def by (rule bars_atr_nonneg) simp_all

lemma trending_dx: "i < 50 \<Longrightarrow> adx_dx trending_klines 14 i = (if i = 0 then 0 else 100)"
proof (cases "i = 0")
  case True
  then show ?thesis by (simp add: adx_dx_none)
next
  case False
  assume i: "i < 50"
  with False have "adx_dx trending_klines 14 i = 100"
    by (intro adx_dx_up trending_atr_nonneg) (simp_all add: trending_klines_def bars_moves of_nat_diff)
  with False show ?thesis by simp
qed

lemma trending_adx: "13 \<le> i \<Longrightarrow> i < 50 \<Longrightarrow> 92 \<le> calculateADX trending_klines 14 ! i"
  unfolding calculateADX_eq
proof (rule wilder_average_induct [where P = "\<lambda>i v. 92 \<le> v"])
  have "sum_list (take 14 (map (adx_dx trending_klines 14) [0..<length trending_klines]))
      = sum_list (map ((!) (map (adx_dx trending_klines 14) [0..<length trending_klines])) [0..<14])"
    by (rule sum_list_take_upt) simp
  also have "\<dots> = map (adx_dx trending_klines 14) [0..<length trending_klines] ! 0
      + sum_list (map ((!) (map (adx_dx trending_klines 14) [0..<length trending_klines])) [Suc 0..<14])"
    by (rule sum_list_upt_first) simp
  also have "map (adx_dx trending_klines 14) [0..<length trending_klines] ! 0 = 0"
    by (simp add: trending_dx)
  also have "sum_list (map ((!) (map (adx_dx trending_klines 14) [0..<length trending_klines])) [Suc 0..<14])
      = real (14 - Suc 0) * 100"
    by (rule sum_list_const_upt) (simp add: trending_dx)
  finally show "92 \<le> sum_list (take 14 (map (adx_dx trending_klines 14) [0..<length trending_klines])) / real 14"
    by simp
next
  fix j v assume "14 \<le> j" "j < length (map (adx_dx trending_klines 14) [0..<length trending_klines])"
    "92 \<le> (v::real)"
  then show "92 \<le> (v * (real 14 - 1) + map (adx_dx trending_klines 14) [0..<length trending_klines] ! j) / real 14"
    by (simp add: trending_dx)
qed simp_all

subsection \<open>The transition example\<close>

lemma transition_length [simp]: "length transition_klines = 50"
  by (simp add: transition_klines_def)

lemma transition_atr_nonneg: "i < 50 \<Longrightarrow> 0 \<le> calculateATR transition_klines 14 ! i"
  unfolding transition_klines_def by (rule bars_atr_nonneg) (simp_all add: transition_level_def)

lemma transition_dx:
  "i < 50 \<Longrightarrow> adx_dx transition_klines 14 i = (if i = 45 \<or> i = 46 \<or> i = 48 \<or> i = 49 then 100 else 0)"
proof (cases "i = 45 \<or> i = 46 \<or> i = 48 \<or> i = 49")
  case True
  assume "i < 50"
  with True have "adx_dx transition_klines 14 i = 100"
    by (intro adx_dx_up transition_atr_nonneg)
      (auto simp: transition_klines_def bars_moves transition_level_def)
  with True show ?thesis by simp
next
  case False
  assume "i < 50"
  with False have "adx_dx transition_klines 14 i = 0"
    by (intro adx_dx_none) (auto simp: transition_klines_def bars_moves transition_level_def)
  with False show ?thesis by simp
qed

lemma transition_adx_44: "13 \<le> i \<Longrightarrow> i < 45 \<Longrightarrow> calculateADX transition_klines 14 ! i = 0"
proof -
  assume i: "13 \<le> i" "i < 45"
  have "i < 45 \<longrightarrow> wilder_average (map (adx_dx transition_klines 14) [0..<length transition_klines]) 14 ! i = 0"
  proof (rule wilder_average_induct [where P = "\<lambda>i v. i < 45 \<longrightarrow> v = 0"])
    have "sum_list (take 14 (map (adx_dx transition_klines 14) [0..<length transition_klines])) / real 14 = 0"
      by (rule wilder_average_seed_const) (simp_all add: transition_dx)
    then show "14 - 1 < (45::nat) \<longrightarrow> sum_list (take 14 (map (adx_dx transition_klines 14) [0..<length transition_klines])) / real 14 = 0"
      by simp
  next
    fix j v assume "14 \<le> j" "j < length (map (adx_dx transition_klines 14) [0..<length transition_klines])"
      "j - 1 < 45 \<longrightarrow> v = (0::real)"
    then show "j < 45 \<longrightarrow> (v * (real 14 - 1) + map (adx_dx transition_klines 14) [0..<length transition_klines] ! j) / real 14 = 0"
      by (auto simp: transition_dx)
  qed (use i in simp_all)
  with i show ?thesis by (simp add: calculateADX_eq)
qed

lemma transition_adx_step:
  "14 \<le> i \<Longrightarrow> i < 50 \<Longrightarrow>
   calculateADX transition_klines 14 ! i =
     (calculateADX transition_klines 14 ! (i - 1) * 13 + adx_dx transition_klines 14 i) / 14"
  unfolding calculateADX_eq by (subst wilder_average_step) simp_all

lemma transition_adx: "calculateADX transition_klines 14 ! 49 = 3335175 / 134456"
proof -
  have a44: "calculateADX transition_klines 14 ! 44 = 0" by (rule transition_adx_44) simp_all
  have a45: "calculateADX transition_klines 14 ! 45 = 100 / 14"
    using transition_adx_step [of 45] a44 by (simp add: transition_dx)
  have a46: "calculateADX transition_klines 14 ! 46 = 2700 / 196"
    using transition_adx_step [of 46] a45 by (simp add: transition_dx)
  have a47: "calculateADX transition_klines 14 ! 47 = 35100 / 2744"
    using transition_adx_step [of 47] a46 by (simp add: transition_dx)
  have a48: "calculateADX transition_klines 14 ! 48 = 182675 / 9604"
    using transition_adx_step [of 48] a47 by (simp add: transition_dx)
  show ?thesis
    using transition_adx_step [of 49] a48 by (simp add: transition_dx)
qed

section \<open>The RSI of flat and falling steps\<close>

lemma rsi_value_zero_loss: "rsi_value (g, 0) = 10000 / 101"
  by (simp add: rsi_value_def)

lemma rsi_value_ratio: "l \<noteq> 0 \<Longrightarrow> rsi_value (g, l) = 100 - 100 / (1 + g / l)"
  by (simp add: rsi_value_def)

lemma rsi_seed_const: "(\<And>i. i \<le> p \<Longrightarrow> closes ! i = c) \<Longrightarrow> rsi_seed closes p = (0, 0)"
proof -
  assume c: "\<And>i. i \<le> p \<Longrightarrow> closes ! i = c"
  have "sum_list (map (\<lambda>i. max (closes ! i - closes ! (i - 1)) 0) [1..<p + 1]) = real (p + 1 - 1) * 0"
    by (rule sum_list_const_upt) (simp add: c)
  moreover have "sum_list (map (\<lambda>i. max (closes ! (i - 1) - closes ! i) 0) [1..<p + 1]) = real (p + 1 - 1) * 0"
    by (rule sum_list_const_upt) (simp add: c)
  ultimately show ?thesis by (simp add: rsi_seed_eq)
qed

lemma rsi_avgs_const:
  assumes "\<And>j. j \<le> max i p \<Longrightarrow> closes ! j = c"
  shows "rsi_avgs closes p i = (0, 0)"
  using assms
proof (induction i)
  case 0
  then show ?case by (simp add: rsi_avgs_seed rsi_seed_const)
next
  case (Suc i)
  show ?case
  proof (cases "p \<le> i")
    case False
    then have "Suc i \<le> p" by simp
    with Suc.prems show ?thesis by (simp add: rsi_avgs_seed rsi_seed_const)
  next
    case True
    have "rsi_avgs closes p i = (0, 0)"
      using Suc.prems by (intro Suc.IH) simp
    moreover have "closes ! Suc i = c" "closes ! i = c" using Suc.prems by simp_all
    ultimately show ?thesis
      by (simp add: rsi_avgs_Suc [OF True] rsi_avg_step_def)
  qed
qed

lemma calculateRSI_const:
  assumes "p < i" "i < n"
  shows "calculateRSI (replicate n c) p ! i = 10000 / 101"
proof -
  have "rsi_avgs (replicate n c) p i = (0, 0)"
    using assms by (intro rsi_avgs_const [where c = c]) simp
  with assms show ?thesis by (simp add: calculateRSI_nth rsi_value_zero_loss)
qed

lemma rsi_value_gt_70:
  assumes "0 < l" "7 * l < 3 * g"
  shows "70 < rsi_value (g, l)"
proof -
  have r: "7 / 3 < g / l" using assms by (simp add: field_simps)
  then have pos: "0 < 1 + g / l" by argo
  from r have "100 < 30 * (1 + g / l)" by argo
  then have "100 / (1 + g / l) < 30" using pos by (simp add: pos_divide_less_eq)
  then show ?thesis using assms(1) by (simp add: rsi_value_def)
qed

lemma rsi_avg_step_flat:
  "closes ! i = closes ! (i - 1) \<Longrightarrow>
   rsi_avg_step closes 14 i (g, l) = (g * 13 / 14, l * 13 / 14)"
  by (simp add: rsi_avg_step_def)

lemma rsi_avg_step_down:
  "closes ! i < closes ! (i - 1) \<Longrightarrow>
   rsi_avg_step closes 14 i (g, l) = (g * 13 / 14, (l * 13 + (closes ! (i - 1) - closes ! i)) / 14)"
  by (simp add: rsi_avg_step_def)

section \<open>Outcomes of the confluence engine\<close>

lemma runAllStrategies_short:
  "length klines < 200 \<Longrightarrow>
   runAllStrategies now symb tf klines =
     \<lparr>signals = [],
      rejections =
        [''Insufficient history ('' @ show_nat (length klines) @ ''/200) for SuperStrategy'']\<rparr>"
  by (simp add: runAllStrategies_def)

lemma runAllStrategies_engine:
  "200 \<le> length klines \<Longrightarrow>
   runAllStrategies now symb tf klines =
     (case confluence symb
             (longSignals (emaVote klines) (rsiVote klines) (bbVote klines))
             (shortSignals (emaVote klines) (rsiVote klines) (bbVote klines))
             (isUptrend (map close klines) (length klines - 1))
             (isVolumeConfirmed (map volume klines) (length klines - 1)) of
        (None, activeStrategies, rejs) \<Rightarrow> \<lparr>signals = [], rejections = rejs\<rparr>
      | (Some dir, activeStrategies, rejs) \<Rightarrow>
          \<lparr>signals = [emitted now symb tf klines dir activeStrategies], rejections = rejs\<rparr>)"
  unfolding runAllStrategies_def emaVote_def rsiVote_def bbVote_def emitted_def Let_def
  by (simp split: prod.splits option.splits)

lemma score_range:
  "emaScore c l p \<in> {- 1, 0, 1}" "rsiScore c l \<in> {- 1, 0, 1}" "bbScore c l p \<in> {- 1, 0, 1}"
  by (simp_all add: emaScore_def rsiScore_def bbScore_def Let_def)

lemma vote_range:
  "emaVote ks \<in> {- 1, 0, 1}" "rsiVote ks \<in> {- 1, 0, 1}" "bbVote ks \<in> {- 1, 0, 1}"
  unfolding emaVote_def rsiVote_def bbVote_def by (rule score_range)+

lemma length_longSignals: "length (longSignals e r b) = length (filter (\<lambda>v. v = 1) [e, r, b])"
  by (simp add: longSignals_def)

lemma length_shortSignals: "length (shortSignals e r b) = length (filter (\<lambda>v. v = - 1) [e, r, b])"
  by (simp add: shortSignals_def)

lemma confluence_direction:
  "fst (confluence symb L S up vol) =
     (if 2 \<le> length L then (if up \<and> vol then Some LONG else None)
      else if 2 \<le> length S then (if \<not> up \<and> vol then Some SHORT else None)
      else None)"
  by (simp add: confluence_def Let_def)

lemma confluence_active:
  "fst (confluence symb L S up vol) = Some d \<Longrightarrow>
   fst (snd (confluence symb L S up vol)) = (if d = LONG then L else S)"
  by (auto simp: confluence_def Let_def split: if_splits)

lemma signals_engine:
  "200 \<le> length klines \<Longrightarrow>
   signals (runAllStrategies now symb tf klines) =
     (case fst (confluence symb
             (longSignals (emaVote klines) (rsiVote klines) (bbVote klines))
             (shortSignals (emaVote klines) (rsiVote klines) (bbVote klines))
             (isUptrend (map close klines) (length klines - 1))
             (isVolumeConfirmed (map volume klines) (length klines - 1))) of
        None \<Rightarrow> []
      | Some dir \<Rightarrow>
          [emitted now symb tf klines dir
             (if dir = LONG then longSignals (emaVote klines) (rsiVote klines) (bbVote klines)
              else shortSignals (emaVote klines) (rsiVote klines) (bbVote klines))])"
proof -
  assume l: "200 \<le> length klines"
  define c where "c = confluence symb
             (longSignals (emaVote klines) (rsiVote klines) (bbVote klines))
             (shortSignals (emaVote klines) (rsiVote klines) (bbVote klines))
             (isUptrend (map close klines) (length klines - 1))
             (isVolumeConfirmed (map volume klines) (length klines - 1))"
  have a: "fst c = Some d \<Longrightarrow> fst (snd c) = (if d = LONG then longSignals (emaVote klines) (rsiVote klines) (bbVote klines)
              else shortSignals (emaVote klines) (rsiVote klines) (bbVote klines))" for d
    unfolding c_def by (rule confluence_active)
  show ?thesis
    unfolding runAllStrategies_engine [OF l] c_def [symmetric]
    using a by (cases c; cases "fst c") auto
qed

lemma rejections_engine:
  "200 \<le> length klines \<Longrightarrow>
   rejections (runAllStrategies now symb tf klines) =
     snd (snd (confluence symb
             (longSignals (emaVote klines) (rsiVote klines) (bbVote klines))
             (shortSignals (emaVote klines) (rsiVote klines) (bbVote klines))
             (isUptrend (map close klines) (length klines - 1))
             (isVolumeConfirmed (map volume klines) (length klines - 1))))"
  unfolding runAllStrategies_engine
  by (simp split: prod.splits option.splits)

lemma emitted_sel [simp]:
  "direction (emitted now symb tf klines dir act) = dir"
  "timestamp (emitted now symb tf klines dir act) = now"
  "entry (emitted now symb tf klines dir act) = map close klines ! (length klines - 1)"
  "stopLoss (emitted now symb tf klines dir act) =
     (if dir = LONG
      then map close klines ! (length klines - 1) - calculateATR klines 14 ! (length klines - 1) * 2
      else map close klines ! (length klines - 1) + calculateATR klines 14 ! (length klines - 1) * 2)"
  "takeProfit (emitted now symb tf klines dir act) =
     (if dir = LONG
      then map close klines ! (length klines - 1) + calculateATR klines 14 ! (length klines - 1) * 2 * 2
      else map close klines ! (length klines - 1) - calculateATR klines 14 ! (length klines - 1) * 2 * 2)"
  "(emitted now symb tf klines dir act)\<lparr>timestamp := t\<rparr> = emitted t symb tf klines dir act"
  by (simp_all add: emitted_def Let_def)

lemma confluence_direction_votes:
  assumes "fst (confluence symb (longSignals e r b) (shortSignals e r b) up vol) = Some dir"
  shows "(dir = LONG \<longrightarrow> 2 \<le> length (filter (\<lambda>v. v = 1) [e, r, b]))
       \<and> (dir = SHORT \<longrightarrow> 2 \<le> length (filter (\<lambda>v. v = - 1) [e, r, b]))"
  using assms unfolding confluence_direction length_longSignals length_shortSignals
  by (simp split: if_splits)

lemma low_confluence_rejection:
  assumes "e \<in> {- 1, 0, 1}" "r \<in> {- 1, 0, 1}" "b \<in> {- 1, 0, 1}"
    and "length (filter (\<lambda>v. v \<noteq> 0) [e, r, b]) = 1"
  shows "\<exists>name \<in> {''EMA Cross'', ''RSI Oversold'', ''RSI Overbought'', ''BB Re-entry''}.
           confluence symb (longSignals e r b) (shortSignals e r b) up vol =
             (None, [], [symb @ '': Low confluence (1/2 signals). Strategy ['' @ name
                           @ ''] was active but insufficient.''])"
proof -
  have s: "show_nat (Suc 0) = ''1''" by (simp add: show_nat.simps)
  from assms(1) consider "e = - 1" | "e = 0" | "e = 1" by auto
  then show ?thesis
  proof cases
    case 1
    with assms have "r = 0" "b = 0" by (auto split: if_splits)
    with 1 show ?thesis by (simp add: longSignals_def shortSignals_def confluence_def s)
  next
    case 3
    with assms have "r = 0" "b = 0" by (auto split: if_splits)
    with 3 show ?thesis by (simp add: longSignals_def shortSignals_def confluence_def s)
  next
    case 2
    from assms(2) consider "r = - 1" | "r = 0" | "r = 1" by auto
    then show ?thesis
    proof cases
      case 1
      with 2 assms have "b = 0" by (auto split: if_splits)
      with 1 2 show ?thesis by (simp add: longSignals_def shortSignals_def confluence_def s)
    next
      case 3
      with 2 assms have "b = 0" by (auto split: if_splits)
      with 3 2 show ?thesis by (simp add: longSignals_def shortSignals_def confluence_def s)
    next
      case r0: 2
      with 2 assms have "b = - 1 \<or> b = 1" by (auto split: if_splits)
      with r0 2 show ?thesis by (auto simp: longSignals_def shortSignals_def confluence_def s)
    qed
  qed
qed

lemma no_confluence:
  assumes "length (filter (\<lambda>v. v \<noteq> 0) [e, r, b]) = 0"
  shows "confluence symb (longSignals e r b) (shortSignals e r b) up vol = (None, [], [])"
proof -
  from assms have "e = 0" "r = 0" "b = 0" by (auto split: if_splits)
  then show ?thesis by (simp add: longSignals_def shortSignals_def confluence_def)
qed

lemma few_votes_no_direction:
  assumes "length (filter (\<lambda>v. v \<noteq> 0) [e, r, b]) \<le> 1"
  shows "fst (confluence symb (longSignals e r b) (shortSignals e r b) up vol) = None"
proof -
  have "length (longSignals e r b) \<le> 1" "length (shortSignals e r b) \<le> 1"
    using assms by (auto simp: length_longSignals length_shortSignals split: if_splits)
  then show ?thesis by (simp add: confluence_direction)
qed

section \<open>Constant windows, and candles without range\<close>

lemma slice_nth_upt: "b \<le> length xs \<Longrightarrow> slice xs a b = map ((!) xs) [a..<b]"
  by (auto simp: slice_def list_eq_iff_nth_eq)

lemma map_const_upt: "(\<And>j. a \<le> j \<Longrightarrow> j < b \<Longrightarrow> f j = c) \<Longrightarrow> map f [a..<b] = replicate (b - a) c"
  by (auto simp: list_eq_iff_nth_eq)

lemma foldl_squares:
  "foldl (\<lambda>a b. a + (b - m) ^ 2) (a::real) xs = a + sum_list (map (\<lambda>b. (b - m) ^ 2) xs)"
  by (induction xs arbitrary: a) simp_all

lemma calculateBollingerBands_length [simp]:
  "length (calculateBollingerBands closes p sd) = length closes"
  by (simp add: calculateBollingerBands_def)

lemma bands_window_const:
  assumes "19 \<le> i" "i < length closes" "\<And>j. i - 19 \<le> j \<Longrightarrow> j \<le> i \<Longrightarrow> closes ! j = c"
  shows "calculateBollingerBands closes 20 2 ! i = \<lparr>middle = c, upper = c, lower = c\<rparr>"
proof -
  have "slice closes (i + 1 - 20) (i + 1) = map ((!) closes) [i + 1 - 20..<i + 1]"
    using assms(2) by (intro slice_nth_upt) simp
  also have "\<dots> = replicate (i + 1 - (i + 1 - 20)) c"
    using assms(1) by (intro map_const_upt assms(3)) simp_all
  also have "i + 1 - (i + 1 - 20) = 20" using assms(1) by simp
  finally have "slice closes (i + 1 - 20) (i + 1) = replicate 20 c" .
  then have sl: "slice closes (i - 19) (Suc i) = replicate 20 c" by simp
  show ?thesis
    using assms(1,2)
    by (simp add: calculateBollingerBands_def Let_def sl reduce_sum_eq foldl_squares sum_list_replicate)
qed

lemma bbScore_prev_flat:
  assumes "19 \<le> p" "p < length closes" "\<And>j. p - 19 \<le> j \<Longrightarrow> j \<le> p \<Longrightarrow> closes ! j = c"
  shows "bbScore closes l p = 0"
proof -
  have "closes ! p = c" using assms(1) by (intro assms(3)) simp_all
  then show ?thesis
    by (simp add: bbScore_def Let_def bands_window_const [OF assms])
qed

lemma calculateEMA_const_prefix:
  assumes "i < length data" "\<And>j. j \<le> i \<Longrightarrow> data ! j = c"
  shows "calculateEMA data p ! i = c"
proof -
  have "i \<le> i \<longrightarrow> calculateEMA data p ! i = c"
  proof (rule calculateEMA_induct [where P = "\<lambda>j v. j \<le> i \<longrightarrow> v = c"])
    show "data \<noteq> []" using assms(1) by auto
    show "0 \<le> i \<longrightarrow> data ! 0 = c" using assms(2) by simp
    show "Suc j \<le> i \<longrightarrow> data ! Suc j * (2 / (real p + 1)) + v * (1 - 2 / (real p + 1)) = c"
      if "Suc j < length data" "j \<le> i \<longrightarrow> v = c" for j v
      using that assms(2) [of "Suc j"] by (auto simp: algebra_simps)
    show "i < length data" by (rule assms(1))
  qed
  then show ?thesis by simp
qed

lemma emaScore_flat:
  assumes "l < length closes" "p \<le> l" "\<And>j. j \<le> l \<Longrightarrow> closes ! j = c"
  shows "emaScore closes l p = 0"
proof -
  have "calculateEMA closes q ! l = c" for q
    by (rule calculateEMA_const_prefix) (use assms in simp_all)
  moreover have "calculateEMA closes q ! p = c" for q
    by (rule calculateEMA_const_prefix) (use assms in simp_all)
  ultimately show ?thesis by (simp add: emaScore_def Let_def)
qed





lemma calculateSMA_nth:
  "i < length data \<Longrightarrow> p - 1 \<le> i \<Longrightarrow> 0 < p \<Longrightarrow>
   calculateSMA data p ! i = sum_list (map ((!) data) [i + 1 - p..<i + 1]) / real p"
  by (auto simp: calculateSMA_def reduce_sum_eq slice_nth_upt)



section \<open>The confluence engine on the example series\<close>

subsection \<open>The crossing series\<close>

lemma cross_closes_length [simp]: "length cross_closes = 201"
  by (simp add: cross_closes_def)

lemma cross_volumes_length [simp]: "length cross_volumes = 201"
  by (simp add: cross_volumes_def)

lemma cross_closes_nth:
  "cross_closes ! 0 = 50"
  "0 < i \<Longrightarrow> i < 200 \<Longrightarrow> cross_closes ! i = 100"
  "cross_closes ! 200 = 100 - 1 / 100000"
  by (simp_all add: cross_closes_def cross_close_def nth_map_upt del: upt_Suc)

lemma cross_volumes_nth:
  "i < 200 \<Longrightarrow> cross_volumes ! i = 1"
  "cross_volumes ! 200 = 2"
  by (simp_all add: cross_volumes_def cross_volume_def nth_map_upt del: upt_Suc)

lemma bars_close: "map close (bars hi lo cl vol n) = map cl [0..<n]"
  by (simp add: bars_def)

lemma bars_volume: "map volume (bars hi lo cl vol n) = map vol [0..<n]"
  by (simp add: bars_def)

lemma cross_ema:
  assumes "i \<le> 199"
  shows "calculateEMA (cross_closes) p ! i = 100 - 50 * (1 - 2 / (real p + 1)) ^ i"
proof -
  have "i \<le> 199 \<longrightarrow> calculateEMA (cross_closes) p ! i = 100 - 50 * (1 - 2 / (real p + 1)) ^ i"
  proof (rule calculateEMA_induct [where P = "\<lambda>j v. j \<le> 199 \<longrightarrow> v = 100 - 50 * (1 - 2 / (real p + 1)) ^ j"])
    show "cross_closes \<noteq> []" by (simp add: cross_closes_def)
    show "0 \<le> (199::nat) \<longrightarrow> cross_closes ! 0 = 100 - 50 * (1 - 2 / (real p + 1)) ^ 0"
      by (simp add: cross_closes_nth)
    show "Suc j \<le> 199 \<longrightarrow>
           cross_closes ! Suc j * (2 / (real p + 1)) + v * (1 - 2 / (real p + 1))
             = 100 - 50 * (1 - 2 / (real p + 1)) ^ Suc j"
      if "Suc j < length (cross_closes)"
        "j \<le> 199 \<longrightarrow> v = 100 - 50 * (1 - 2 / (real p + 1)) ^ j" for j v
    proof
      assume s: "Suc j \<le> 199"
      then have c: "cross_closes ! Suc j = 100"
        by (simp add: cross_closes_nth)
      from s that have v: "v = 100 - 50 * (1 - 2 / (real p + 1)) ^ j" by simp
      show "cross_closes ! Suc j * (2 / (real p + 1)) + v * (1 - 2 / (real p + 1))
             = 100 - 50 * (1 - 2 / (real p + 1)) ^ Suc j"
        unfolding c v by (simp add: algebra_simps)
    qed
    show "i < length (cross_closes)" using assms by simp
  qed
  with assms show ?thesis by simp
qed

lemma cross_ema_last:
  "calculateEMA (cross_closes) p ! 200 =
     (100 - 1 / 100000) * (2 / (real p + 1))
       + (100 - 50 * (1 - 2 / (real p + 1)) ^ 199) * (1 - 2 / (real p + 1))"
proof -
  have "calculateEMA (cross_closes) p ! Suc 199 =
      cross_closes ! Suc 199 * (2 / (real p + 1))
        + calculateEMA (cross_closes) p ! 199 * (1 - 2 / (real p + 1))"
    by (rule calculateEMA_Suc) simp
  moreover have "cross_closes ! Suc 199 = 100 - 1 / 100000"
    by (simp add: cross_closes_nth)
  moreover have "calculateEMA (cross_closes) p ! 199 = 100 - 50 * (1 - 2 / (real p + 1)) ^ 199"
    by (rule cross_ema) simp
  moreover have "Suc 199 = 200" by simp
  ultimately show ?thesis by (simp only:)
qed

lemma cross_ema_arith:
  fixes X Y :: real
  assumes "0 \<le> X" "Y < 1 / 100000000"
  shows "(100 - 1 / 100000) * (1 / 5) + (100 - 50 * X) * (4 / 5)
       < (100 - 1 / 100000) * (1 / 11) + (100 - 50 * Y) * (10 / 11)"
  using assms by (simp add: algebra_simps)

lemma cross_emaScore: "emaScore (cross_closes) 200 199 = - 1"
proof -
  have k: "1 - 2 / (real 9 + 1) = 4 / 5" "1 - 2 / (real 21 + 1) = 10 / 11"
    "2 / (real 9 + 1) = 1 / 5" "2 / (real 21 + 1) = 1 / 11"
    "(1::real) - 1 / 5 = 4 / 5" "(1::real) - 1 / 11 = 10 / 11"
    by simp_all
  have m: "(4 / 5 :: real) ^ 199 \<le> (10 / 11) ^ 199" by (intro power_mono) simp_all
  have p21: "(10 / 11 :: real) ^ 199 < 1 / 100000000" by (simp add: power_divide)
  have p9: "0 \<le> (4 / 5 :: real) ^ 199" by simp
  have a: "calculateEMA (cross_closes) 9 ! 199 \<ge> calculateEMA (cross_closes) 21 ! 199"
    unfolding cross_ema [of 199, simplified] k using m by linarith
  have b: "calculateEMA (cross_closes) 9 ! 200 < calculateEMA (cross_closes) 21 ! 200"
    unfolding cross_ema_last k using p9 p21 by (rule cross_ema_arith)
  from a b show ?thesis by (simp add: emaScore_def Let_def)
qed

lemma cross_rsi_seed: "rsi_seed cross_closes 14 = (50 / 14, 0)"
proof -
  have "sum_list (map (\<lambda>i. max (cross_closes ! i - cross_closes ! (i - 1)) 0) [1..<15])
        = max (cross_closes ! 1 - cross_closes ! (1 - 1)) 0
          + sum_list (map (\<lambda>i. max (cross_closes ! i - cross_closes ! (i - 1)) 0) [Suc 1..<15])"
    by (rule sum_list_upt_first) simp
  also have "sum_list (map (\<lambda>i. max (cross_closes ! i - cross_closes ! (i - 1)) 0) [Suc 1..<15])
        = real (15 - Suc 1) * 0"
    by (rule sum_list_const_upt) (simp add: cross_closes_nth)
  also have "max (cross_closes ! 1 - cross_closes ! (1 - 1)) 0 = 50"
    by (simp add: cross_closes_nth)
  finally have g: "sum_list (map (\<lambda>i. max (cross_closes ! i - cross_closes ! (i - 1)) 0) [1..<14 + 1]) = 50"
    by simp
  have "sum_list (map (\<lambda>i. max (cross_closes ! (i - 1) - cross_closes ! i) 0) [1..<15])
        = max (cross_closes ! (1 - 1) - cross_closes ! 1) 0
          + sum_list (map (\<lambda>i. max (cross_closes ! (i - 1) - cross_closes ! i) 0) [Suc 1..<15])"
    by (rule sum_list_upt_first) simp
  also have "sum_list (map (\<lambda>i. max (cross_closes ! (i - 1) - cross_closes ! i) 0) [Suc 1..<15])
        = real (15 - Suc 1) * 0"
    by (rule sum_list_const_upt) (simp add: cross_closes_nth)
  also have "max (cross_closes ! (1 - 1) - cross_closes ! 1) 0 = 0"
    by (simp add: cross_closes_nth)
  finally have l: "sum_list (map (\<lambda>i. max (cross_closes ! (i - 1) - cross_closes ! i) 0) [1..<14 + 1]) = 0"
    by simp
  show ?thesis unfolding rsi_seed_eq g l by simp
qed

lemma cross_rsi_avgs:
  "i \<le> 185 \<Longrightarrow> rsi_avgs cross_closes 14 (14 + i) = (50 / 14 * (13 / 14) ^ i, 0)"
proof (induction i)
  case 0
  show ?case by (simp add: rsi_avgs_seed cross_rsi_seed)
next
  case (Suc i)
  then have ih: "rsi_avgs cross_closes 14 (14 + i) = (50 / 14 * (13 / 14) ^ i, 0)"
    by simp
  have c: "cross_closes ! Suc (14 + i) = cross_closes ! (Suc (14 + i) - 1)"
    using Suc.prems by (simp add: cross_closes_nth)
  have "rsi_avgs cross_closes 14 (Suc (14 + i))
      = rsi_avg_step cross_closes 14 (Suc (14 + i)) (rsi_avgs cross_closes 14 (14 + i))"
    by (rule rsi_avgs_Suc) simp
  also have "\<dots> = (50 / 14 * (13 / 14) ^ i * 13 / 14, 0 * 13 / 14)"
    unfolding ih by (rule rsi_avg_step_flat [OF c])
  finally show ?case by simp
qed

lemma cross_rsi_avgs_last:
  "rsi_avgs cross_closes 14 200 = (50 / 14 * (13 / 14) ^ 186, 1 / 100000 / 14)"
proof -
  have c: "cross_closes ! Suc 199 < cross_closes ! (Suc 199 - 1)"
    by (simp add: cross_closes_nth)
  have "rsi_avgs cross_closes 14 (Suc 199)
      = rsi_avg_step cross_closes 14 (Suc 199) (rsi_avgs cross_closes 14 199)"
    by (rule rsi_avgs_Suc) simp
  also have "rsi_avgs cross_closes 14 199 = (50 / 14 * (13 / 14) ^ 185, 0)"
    using cross_rsi_avgs [of 185] by simp
  also have "rsi_avg_step cross_closes 14 (Suc 199) (50 / 14 * (13 / 14) ^ 185, 0)
      = (50 / 14 * (13 / 14) ^ 185 * 13 / 14,
         (0 * 13 + (cross_closes ! (Suc 199 - 1) - cross_closes ! Suc 199)) / 14)"
    by (rule rsi_avg_step_down [OF c])
  finally show ?thesis
    using power_Suc2 [of "13 / 14 :: real" 185] by (simp add: cross_closes_nth)
qed

lemma cross_rsiScore: "rsiScore cross_closes 200 = - 1"
proof -
  have p: "(8 / 10000000 :: real) < (13 / 14) ^ 186" by (simp add: power_divide)
  have "70 < rsi_value (50 / 14 * (13 / 14) ^ 186, 1 / 100000 / 14)"
    by (rule rsi_value_gt_70) (use p in simp_all)
  then have "70 < calculateRSI cross_closes 14 ! 200"
    by (simp add: calculateRSI_nth cross_rsi_avgs_last)
  then show ?thesis by (simp add: rsiScore_def Let_def)
qed

lemma cross_bbScore: "bbScore cross_closes 200 199 = 0"
  by (rule bbScore_prev_flat [where c = 100]) (simp_all add: cross_closes_nth)

lemma cross_isUptrend: "\<not> isUptrend cross_closes 200"
proof -
  have "sum_list (map ((!) cross_closes) [1..<Suc 200])
      = sum_list (map ((!) cross_closes) [1..<200]) + cross_closes ! 200"
    by (rule sum_list_upt_last) simp
  also have "sum_list (map ((!) cross_closes) [1..<200]) = real (200 - 1) * 100"
    by (rule sum_list_const_upt) (simp add: cross_closes_nth)
  finally have s: "sum_list (map ((!) cross_closes) [1..<201]) = 19900 + (100 - 1 / 100000)"
    by (simp add: cross_closes_nth)
  have "calculateSMA cross_closes 200 ! 200
      = sum_list (map ((!) cross_closes) [200 + 1 - 200..<200 + 1]) / real 200"
    by (rule calculateSMA_nth) simp_all
  then have "calculateSMA cross_closes 200 ! 200 = (19900 + (100 - 1 / 100000)) / 200"
    using s by simp
  then show ?thesis by (simp add: isUptrend_def Let_def cross_closes_nth)
qed

lemma cross_isVolumeConfirmed: "isVolumeConfirmed cross_volumes 200"
proof -
  have "sum_list (map ((!) cross_volumes) [181..<Suc 200])
      = sum_list (map ((!) cross_volumes) [181..<200]) + cross_volumes ! 200"
    by (rule sum_list_upt_last) simp
  also have "sum_list (map ((!) cross_volumes) [181..<200]) = real (200 - 181) * 1"
    by (rule sum_list_const_upt) (simp add: cross_volumes_nth)
  finally have s: "sum_list (map ((!) cross_volumes) [181..<201]) = 21"
    by (simp add: cross_volumes_nth)
  have "calculateSMA cross_volumes 20 ! 200
      = sum_list (map ((!) cross_volumes) [200 + 1 - 20..<200 + 1]) / real 20"
    by (rule calculateSMA_nth) simp_all
  then have "calculateSMA cross_volumes 20 ! 200 = 21 / 20"
    using s by simp
  then show ?thesis by (simp add: isVolumeConfirmed_def Let_def cross_volumes_nth)
qed

lemma bars_cross_close: "map close (bars hi lo cross_close vol 201) = cross_closes"
  by (simp add: bars_close cross_closes_def del: upt_Suc)

lemma bars_cross_volume: "map volume (bars hi lo cl cross_volume 201) = cross_volumes"
  by (simp add: bars_volume cross_volumes_def del: upt_Suc)

lemma cross_votes:
  "emaVote (bars hi lo cross_close vol 201) = - 1"
  "rsiVote (bars hi lo cross_close vol 201) = - 1"
  "bbVote (bars hi lo cross_close vol 201) = 0"
  by (simp_all add: emaVote_def rsiVote_def bbVote_def bars_cross_close
      cross_emaScore cross_rsiScore cross_bbScore)

lemma cross_confluence:
  "confluence symb (longSignals (- 1) (- 1) 0) (shortSignals (- 1) (- 1) 0) False True
     = (Some SHORT, [''EMA Cross'', ''RSI Overbought''], [])"
  by (simp add: confluence_def shortSignals_def longSignals_def)

lemma cross_result:
  "runAllStrategies now symb tf (bars hi lo cross_close cross_volume 201) =
     \<lparr>signals = [emitted now symb tf (bars hi lo cross_close cross_volume 201) SHORT
                   [''EMA Cross'', ''RSI Overbought'']],
      rejections = []\<rparr>"
proof -
  have l: "200 \<le> length (bars hi lo cross_close cross_volume 201)" by simp
  have u: "isUptrend (map close (bars hi lo cross_close cross_volume 201))
              (length (bars hi lo cross_close cross_volume 201) - 1) = False"
    using cross_isUptrend by (simp add: bars_cross_close)
  have v: "isVolumeConfirmed (map volume (bars hi lo cross_close cross_volume 201))
              (length (bars hi lo cross_close cross_volume 201) - 1) = True"
    using cross_isVolumeConfirmed by (simp add: bars_cross_volume)
  show ?thesis
    unfolding runAllStrategies_engine [OF l] cross_votes u v cross_confluence by simp
qed

lemma pinned_length [simp]: "length pinned_klines = 201"
  by (simp add: pinned_klines_def)

lemma cross_length [simp]: "length cross_klines = 201"
  by (simp add: cross_klines_def)





lemma cross_signals:
  "signals (runAllStrategies now symb tf cross_klines)
      = [emitted now symb tf cross_klines SHORT [''EMA Cross'', ''RSI Overbought'']]"
  unfolding cross_klines_def cross_result by simp


subsection \<open>The flat series\<close>

lemma flat_length [simp]: "length flat_klines = 200"
  by (simp add: flat_klines_def)

lemma flat_closes: "map close flat_klines = replicate 200 100"
  by (simp add: flat_klines_def bars_close map_replicate_const del: upt_Suc)

lemma flat_votes:
  "emaVote flat_klines = 0" "rsiVote flat_klines = - 1" "bbVote flat_klines = 0"
proof -
  show "emaVote flat_klines = 0"
    unfolding emaVote_def flat_closes by (rule emaScore_flat [where c = 100]) simp_all
  show "bbVote flat_klines = 0"
    unfolding bbVote_def flat_closes by (rule bbScore_prev_flat [where c = 100]) simp_all
  have "calculateRSI (replicate 200 100) 14 ! 199 = 10000 / 101"
    by (rule calculateRSI_const) simp_all
  then show "rsiVote flat_klines = - 1"
    unfolding rsiVote_def flat_closes by (simp add: rsiScore_def Let_def)
qed

lemma flat_confluence:
  "confluence symb (longSignals 0 (- 1) 0) (shortSignals 0 (- 1) 0) up vol =
     (None, [], [symb @ '': Low confluence (1/2 signals). Strategy [RSI Overbought] was active but insufficient.''])"
  by (simp add: confluence_def longSignals_def shortSignals_def show_nat.simps)

lemma flat_result:
  "runAllStrategies now symb tf flat_klines =
     \<lparr>signals = [],
      rejections = [symb @ '': Low confluence (1/2 signals). Strategy [RSI Overbought] was active but insufficient.'']\<rparr>"
proof -
  have l: "200 \<le> length flat_klines" by simp
  show ?thesis
    unfolding runAllStrategies_engine [OF l] flat_votes flat_confluence by simp
qed

subsection \<open>The quiet series\<close>

lemma quiet_length [simp]: "length quiet_klines = 200"
  by (simp add: quiet_klines_def)

lemma quiet_closes_length [simp]: "length quiet_closes = 200"
  by (simp add: quiet_closes_def)

lemma quiet_map_close: "map close quiet_klines = quiet_closes"
  by (simp add: quiet_klines_def bars_close quiet_closes_def del: upt_Suc)

lemma quiet_closes_nth:
  "quiet_closes ! 0 = 100"
  "quiet_closes ! 1 = 102"
  "quiet_closes ! Suc 0 = 102"
  "1 < i \<Longrightarrow> i < 200 \<Longrightarrow> quiet_closes ! i = 101"
  by (simp_all add: quiet_closes_def quiet_close_def nth_map_upt del: upt_Suc)

lemma quiet_ema_step:
  fixes k :: real
  shows "101 * k + (101 - (1 - 2 * k) * (1 - k) ^ j) * (1 - k) = 101 - (1 - 2 * k) * (1 - k) ^ Suc j"
  by (simp add: algebra_simps)

lemma quiet_ema:
  assumes "Suc j < 200"
  shows "calculateEMA quiet_closes p ! Suc j
           = 101 - (1 - 2 * (2 / (real p + 1))) * (1 - 2 / (real p + 1)) ^ j"
  using assms
proof (induction j)
  case 0
  have "calculateEMA quiet_closes p ! Suc 0
      = quiet_closes ! Suc 0 * (2 / (real p + 1)) + calculateEMA quiet_closes p ! 0 * (1 - 2 / (real p + 1))"
    by (rule calculateEMA_Suc) simp
  also have "calculateEMA quiet_closes p ! 0 = quiet_closes ! 0"
    by (rule calculateEMA_0) (simp add: quiet_closes_def)
  finally show ?case using quiet_closes_nth(1,2) by (simp add: algebra_simps)
next
  case (Suc j)
  then have ih: "calculateEMA quiet_closes p ! Suc j
           = 101 - (1 - 2 * (2 / (real p + 1))) * (1 - 2 / (real p + 1)) ^ j"
    by simp
  have c: "quiet_closes ! Suc (Suc j) = 101"
    using Suc.prems by (simp add: quiet_closes_nth)
  have "calculateEMA quiet_closes p ! Suc (Suc j)
      = quiet_closes ! Suc (Suc j) * (2 / (real p + 1))
        + calculateEMA quiet_closes p ! Suc j * (1 - 2 / (real p + 1))"
    by (rule calculateEMA_Suc) (use Suc.prems in simp)
  then show ?case unfolding ih c by (simp only: quiet_ema_step)
qed

lemma quiet_ema_order:
  assumes "Suc j < 200"
  shows "calculateEMA quiet_closes 21 ! Suc j < calculateEMA quiet_closes 9 ! Suc j"
proof -
  have k: "1 - 2 * (2 / (real 9 + 1)) = 3 / 5" "1 - 2 / (real 9 + 1) = 4 / 5"
    "1 - 2 * (2 / (real 21 + 1)) = 9 / 11" "1 - 2 / (real 21 + 1) = 10 / 11"
    by simp_all
  have m: "(4 / 5 :: real) ^ j \<le> (10 / 11) ^ j" by (intro power_mono) simp_all
  have p: "0 < (10 / 11 :: real) ^ j" by simp
  have "(3 / 5) * (4 / 5 :: real) ^ j < (9 / 11) * (10 / 11) ^ j"
    using m p by argo
  then show ?thesis unfolding quiet_ema [OF assms] k by argo
qed

lemma quiet_emaScore: "emaScore quiet_closes 199 198 = 0"
  using quiet_ema_order [of 198] quiet_ema_order [of 197]
  by (simp add: emaScore_def Let_def)

lemma quiet_rsi_seed: "rsi_seed quiet_closes 14 = (2 / 14, 1 / 14)"
proof -
  have "sum_list (map (\<lambda>i. max (quiet_closes ! i - quiet_closes ! (i - 1)) 0) [1..<15])
        = max (quiet_closes ! 1 - quiet_closes ! (1 - 1)) 0
          + sum_list (map (\<lambda>i. max (quiet_closes ! i - quiet_closes ! (i - 1)) 0) [Suc 1..<15])"
    by (rule sum_list_upt_first) simp
  also have "sum_list (map (\<lambda>i. max (quiet_closes ! i - quiet_closes ! (i - 1)) 0) [Suc 1..<15])
        = max (quiet_closes ! Suc 1 - quiet_closes ! (Suc 1 - 1)) 0
          + sum_list (map (\<lambda>i. max (quiet_closes ! i - quiet_closes ! (i - 1)) 0) [Suc (Suc 1)..<15])"
    by (rule sum_list_upt_first) simp
  also have "sum_list (map (\<lambda>i. max (quiet_closes ! i - quiet_closes ! (i - 1)) 0) [Suc (Suc 1)..<15])
        = real (15 - Suc (Suc 1)) * 0"
    by (rule sum_list_const_upt) (simp add: quiet_closes_nth)
  also have "max (quiet_closes ! 1 - quiet_closes ! (1 - 1)) 0 = 2"
    by (simp add: quiet_closes_nth)
  also have "max (quiet_closes ! Suc 1 - quiet_closes ! (Suc 1 - 1)) 0 = 0"
    by (simp add: quiet_closes_nth)
  finally have g: "sum_list (map (\<lambda>i. max (quiet_closes ! i - quiet_closes ! (i - 1)) 0) [1..<14 + 1]) = 2"
    by simp
  have "sum_list (map (\<lambda>i. max (quiet_closes ! (i - 1) - quiet_closes ! i) 0) [1..<15])
        = max (quiet_closes ! (1 - 1) - quiet_closes ! 1) 0
          + sum_list (map (\<lambda>i. max (quiet_closes ! (i - 1) - quiet_closes ! i) 0) [Suc 1..<15])"
    by (rule sum_list_upt_first) simp
  also have "sum_list (map (\<lambda>i. max (quiet_closes ! (i - 1) - quiet_closes ! i) 0) [Suc 1..<15])
        = max (quiet_closes ! (Suc 1 - 1) - quiet_closes ! Suc 1) 0
          + sum_list (map (\<lambda>i. max (quiet_closes ! (i - 1) - quiet_closes ! i) 0) [Suc (Suc 1)..<15])"
    by (rule sum_list_upt_first) simp
  also have "sum_list (map (\<lambda>i. max (quiet_closes ! (i - 1) - quiet_closes ! i) 0) [Suc (Suc 1)..<15])
        = real (15 - Suc (Suc 1)) * 0"
    by (rule sum_list_const_upt) (simp add: quiet_closes_nth)
  also have "max (quiet_closes ! (1 - 1) - quiet_closes ! 1) 0 = 0"
    by (simp add: quiet_closes_nth)
  also have "max (quiet_closes ! (Suc 1 - 1) - quiet_closes ! Suc 1) 0 = 1"
    by (simp add: quiet_closes_nth)
  finally have l: "sum_list (map (\<lambda>i. max (quiet_closes ! (i - 1) - quiet_closes ! i) 0) [1..<14 + 1]) = 1"
    by simp
  show ?thesis unfolding rsi_seed_eq g l by simp
qed

lemma quiet_rsi_avgs:
  "i \<le> 185 \<Longrightarrow> rsi_avgs quiet_closes 14 (14 + i) = (2 / 14 * (13 / 14) ^ i, 1 / 14 * (13 / 14) ^ i)"
proof (induction i)
  case 0
  show ?case by (simp add: rsi_avgs_seed quiet_rsi_seed)
next
  case (Suc i)
  then have ih: "rsi_avgs quiet_closes 14 (14 + i) = (2 / 14 * (13 / 14) ^ i, 1 / 14 * (13 / 14) ^ i)"
    by simp
  have c: "quiet_closes ! Suc (14 + i) = quiet_closes ! (Suc (14 + i) - 1)"
    using Suc.prems by (simp add: quiet_closes_nth)
  have "rsi_avgs quiet_closes 14 (Suc (14 + i))
      = rsi_avg_step quiet_closes 14 (Suc (14 + i)) (rsi_avgs quiet_closes 14 (14 + i))"
    by (rule rsi_avgs_Suc) simp
  also have "\<dots> = (2 / 14 * (13 / 14) ^ i * 13 / 14, 1 / 14 * (13 / 14) ^ i * 13 / 14)"
    unfolding ih by (rule rsi_avg_step_flat [OF c])
  finally show ?case by simp
qed

lemma quiet_rsiScore: "rsiScore quiet_closes 199 = 0"
proof -
  have p: "(13 / 14 :: real) ^ 185 \<noteq> 0" by simp
  have "rsi_avgs quiet_closes 14 199 = (2 / 14 * (13 / 14) ^ 185, 1 / 14 * (13 / 14) ^ 185)"
    using quiet_rsi_avgs [of 185] by simp
  then have "calculateRSI quiet_closes 14 ! 199 = 100 - 100 / (1 + 2)"
    using p by (simp add: calculateRSI_nth rsi_value_def)
  then show ?thesis by (simp add: rsiScore_def Let_def)
qed

lemma quiet_bbScore: "bbScore quiet_closes 199 198 = 0"
  by (rule bbScore_prev_flat [where c = 101]) (simp_all add: quiet_closes_nth)

lemma quiet_votes:
  "emaVote quiet_klines = 0" "rsiVote quiet_klines = 0" "bbVote quiet_klines = 0"
  by (simp_all add: emaVote_def rsiVote_def bbVote_def quiet_map_close
      quiet_emaScore quiet_rsiScore quiet_bbScore)

lemma quiet_result:
  "runAllStrategies now symb tf quiet_klines = \<lparr>signals = [], rejections = []\<rparr>"
proof -
  have l: "200 \<le> length quiet_klines" by simp
  have c: "confluence symb (longSignals 0 0 0) (shortSignals 0 0 0) up vol = (None, [], [])" for up vol
    by (simp add: confluence_def longSignals_def shortSignals_def)
  show ?thesis
    unfolding runAllStrategies_engine [OF l] quiet_votes c by simp
qed

subsection \<open>The dip\<close>

lemma dip_rsi_avgs: "rsi_avgs dip_closes 14 15 = (0, 1 / 14)"
proof -
  have n: "dip_closes ! i = 100" if "i \<le> 14" for i
    using that by (simp add: dip_closes_def nth_append)
  have s: "rsi_seed dip_closes 14 = (0, 0)"
    by (rule rsi_seed_const [where c = 100]) (rule n)
  have d: "dip_closes ! Suc 14 < dip_closes ! (Suc 14 - 1)"
    by (simp add: dip_closes_def nth_append)
  have "rsi_avgs dip_closes 14 (Suc 14) = rsi_avg_step dip_closes 14 (Suc 14) (rsi_avgs dip_closes 14 14)"
    by (rule rsi_avgs_Suc) simp
  also have "rsi_avgs dip_closes 14 14 = (0, 0)" by (simp add: rsi_avgs_seed s)
  also have "rsi_avg_step dip_closes 14 (Suc 14) (0, 0)
      = (0 * 13 / 14, (0 * 13 + (dip_closes ! (Suc 14 - 1) - dip_closes ! Suc 14)) / 14)"
    by (rule rsi_avg_step_down [OF d])
  finally show ?thesis by (simp add: dip_closes_def nth_append)
qed

section \<open>The risk validator, branch by branch\<close>

lemma candidate_sel [simp]:
  "entry (candidate d e s t) = e" "stopLoss (candidate d e s t) = s"
  "takeProfit (candidate d e s t) = t"
  by (simp_all add: candidate_def)

lemma risk_zero:
  "entry sig = stopLoss sig \<Longrightarrow>
   applyRiskManagement sig b r m =
     \<lparr>isValid = False, signal = sig, reason = Some ''Zero distance Stop Loss detected''\<rparr>"
  unfolding applyRiskManagement_def Let_def by simp

lemma risk_noise:
  "entry sig \<noteq> stopLoss sig \<Longrightarrow>
   js_lt (js_div \<bar>entry sig - stopLoss sig\<bar> (entry sig)) (1 / 1000) \<Longrightarrow>
   applyRiskManagement sig b r m =
     \<lparr>isValid = False, signal = sig,
      reason = Some ''Unsafe: SL distance too small (Market Noise)''\<rparr>"
  unfolding applyRiskManagement_def Let_def by simp

lemma risk_wide:
  "entry sig \<noteq> stopLoss sig \<Longrightarrow>
   \<not> js_lt (js_div \<bar>entry sig - stopLoss sig\<bar> (entry sig)) (1 / 1000) \<Longrightarrow>
   js_gt (js_div \<bar>entry sig - stopLoss sig\<bar> (entry sig)) (10 / 100) \<Longrightarrow>
   applyRiskManagement sig b r m =
     \<lparr>isValid = False, signal = sig,
      reason = Some ''Unsafe: SL distance too large (Extreme Volatility)''\<rparr>"
  unfolding applyRiskManagement_def Let_def by simp

lemma risk_ratio:
  "entry sig \<noteq> stopLoss sig \<Longrightarrow>
   \<not> js_lt (js_div \<bar>entry sig - stopLoss sig\<bar> (entry sig)) (1 / 1000) \<Longrightarrow>
   \<not> js_gt (js_div \<bar>entry sig - stopLoss sig\<bar> (entry sig)) (10 / 100) \<Longrightarrow>
   \<bar>takeProfit sig - entry sig\<bar> / \<bar>entry sig - stopLoss sig\<bar> < 2 \<Longrightarrow>
   applyRiskManagement sig b r m =
     \<lparr>isValid = False, signal = sig,
      reason = Some (''Rejected: R/R Ratio too low (''
                 @ toFixed2 (\<bar>takeProfit sig - entry sig\<bar> / \<bar>entry sig - stopLoss sig\<bar>)
                 @ '' < 2.0)'')\<rparr>"
  unfolding applyRiskManagement_def Let_def by simp

lemma risk_accept:
  "entry sig \<noteq> stopLoss sig \<Longrightarrow>
   \<not> js_lt (js_div \<bar>entry sig - stopLoss sig\<bar> (entry sig)) (1 / 1000) \<Longrightarrow>
   \<not> js_gt (js_div \<bar>entry sig - stopLoss sig\<bar> (entry sig)) (10 / 100) \<Longrightarrow>
   \<not> \<bar>takeProfit sig - entry sig\<bar> / \<bar>entry sig - stopLoss sig\<bar> < 2 \<Longrightarrow>
   applyRiskManagement sig b r m =
     \<lparr>isValid = True,
      signal = sig
        \<lparr>positionSize :=
           Some (toFixed6
             (if js_gt (js_ceil (js_div
                   (b * (min r 5 / 100) / \<bar>entry sig - stopLoss sig\<bar> * entry sig) b)) m
              then b * m / entry sig
              else b * (min r 5 / 100) / \<bar>entry sig - stopLoss sig\<bar>)),
         suggestedLeverage :=
           Some (js_max 1
             (if js_gt (js_ceil (js_div
                   (b * (min r 5 / 100) / \<bar>entry sig - stopLoss sig\<bar> * entry sig) b)) m
              then Num m
              else js_ceil (js_div
                   (b * (min r 5 / 100) / \<bar>entry sig - stopLoss sig\<bar> * entry sig) b)))\<rparr>,
      reason = None\<rparr>"
  unfolding applyRiskManagement_def Let_def by simp

lemma risk_isValid_iff:
  "isValid (applyRiskManagement sig b r m) \<longleftrightarrow>
     entry sig \<noteq> stopLoss sig
     \<and> \<not> js_lt (js_div \<bar>entry sig - stopLoss sig\<bar> (entry sig)) (1 / 1000)
     \<and> \<not> js_gt (js_div \<bar>entry sig - stopLoss sig\<bar> (entry sig)) (10 / 100)
     \<and> \<not> \<bar>takeProfit sig - entry sig\<bar> / \<bar>entry sig - stopLoss sig\<bar> < 2"
proof (cases "entry sig = stopLoss sig")
  case True
  then show ?thesis by (simp add: risk_zero)
next
  case ne: False
  show ?thesis
  proof (cases "js_lt (js_div \<bar>entry sig - stopLoss sig\<bar> (entry sig)) (1 / 1000)")
    case True
    with ne show ?thesis by (simp add: risk_noise)
  next
    case nlt: False
    show ?thesis
    proof (cases "js_gt (js_div \<bar>entry sig - stopLoss sig\<bar> (entry sig)) (10 / 100)")
      case True
      with ne nlt show ?thesis by (simp add: risk_wide)
    next
      case ngt: False
      show ?thesis
      proof (cases "\<bar>takeProfit sig - entry sig\<bar> / \<bar>entry sig - stopLoss sig\<bar> < 2")
        case True
        with ne nlt ngt show ?thesis by (simp add: risk_ratio)
      next
        case False
        with ne nlt ngt show ?thesis by (simp add: risk_accept)
      qed
    qed
  qed
qed

lemma js_fraction_lt: "d \<noteq> 0 \<Longrightarrow> 0 \<le> d \<Longrightarrow> js_lt (js_div d e) c \<longleftrightarrow> e \<noteq> 0 \<and> d / e < c"
  by (simp add: js_div_def)

lemma js_fraction_gt: "d \<noteq> 0 \<Longrightarrow> 0 \<le> d \<Longrightarrow> js_gt (js_div d e) c \<longleftrightarrow> e = 0 \<or> c < d / e"
  by (simp add: js_div_def)


lemma toFixed6_near: "\<bar>toFixed6 x - x\<bar> \<le> 1 / 2000000"
proof -
  define y where "y = \<bar>x\<bar> * 1000000 + 1 / 2"
  have fl: "of_int \<lfloor>y\<rfloor> \<le> y" "y < of_int \<lfloor>y\<rfloor> + 1" by linarith+
  have "\<bar>of_int \<lfloor>y\<rfloor> / 1000000 - \<bar>x\<bar>\<bar> \<le> 1 / 2000000"
    using fl unfolding y_def by linarith
  moreover have "\<bar>toFixed6 x - x\<bar> = \<bar>of_int \<lfloor>y\<rfloor> / 1000000 - \<bar>x\<bar>\<bar>" if "x \<noteq> 0"
  proof (cases "x < 0")
    case True
    then show ?thesis by (simp add: toFixed6_def y_def abs_if)
  next
    case False
    with that show ?thesis by (simp add: toFixed6_def y_def abs_if)
  qed
  moreover have "\<bar>toFixed6 x - x\<bar> = 0" if "x = 0"
    using that by (simp add: toFixed6_def)
  ultimately show ?thesis by (cases "x = 0") simp_all
qed

text \<open>
  With a balance of zero the required leverage is \<open>0 / 0\<close>: an accepted candidate is sized
  0 and its suggested leverage is NaN.
\<close>

lemma risk_zero_balance:
  "isValid (applyRiskManagement (candidate LONG 100 99 102) 0 1 5)
   \<and> positionSize (signal (applyRiskManagement (candidate LONG 100 99 102) 0 1 5)) = Some 0
   \<and> suggestedLeverage (signal (applyRiskManagement (candidate LONG 100 99 102) 0 1 5)) = Some NaN"
proof -
  have c: "entry (candidate LONG 100 99 102) \<noteq> stopLoss (candidate LONG 100 99 102)"
    "\<not> js_lt (js_div \<bar>entry (candidate LONG 100 99 102) - stopLoss (candidate LONG 100 99 102)\<bar>
          (entry (candidate LONG 100 99 102))) (1 / 1000)"
    "\<not> js_gt (js_div \<bar>entry (candidate LONG 100 99 102) - stopLoss (candidate LONG 100 99 102)\<bar>
          (entry (candidate LONG 100 99 102))) (10 / 100)"
    "\<not> \<bar>takeProfit (candidate LONG 100 99 102) - entry (candidate LONG 100 99 102)\<bar>
          / \<bar>entry (candidate LONG 100 99 102) - stopLoss (candidate LONG 100 99 102)\<bar> < 2"
    by (simp_all add: js_div_def)
  show ?thesis
    unfolding risk_accept [OF c] by (simp add: js_div_def toFixed6_def)
qed

section \<open>Claims about the risk validator\<close>

text \<open>
  Claim C10. Whenever \<open>applyRiskManagement\<close> returns \<open>isValid = false\<close>, the signal in the
  result is the input signal unchanged: no field is modified, and neither \<open>positionSize\<close>
  nor \<open>suggestedLeverage\<close> is attached.
\<close>

theorem risk_rejection_keeps_signal:
  assumes "\<not> isValid (applyRiskManagement sig balance riskPercent maxLeverage)"
  shows "signal (applyRiskManagement sig balance riskPercent maxLeverage) = sig
     \<and> positionSize (signal (applyRiskManagement sig balance riskPercent maxLeverage))
         = positionSize sig
     \<and> suggestedLeverage (signal (applyRiskManagement sig balance riskPercent maxLeverage))
         = suggestedLeverage sig"
proof -
  consider (zero) "entry sig = stopLoss sig"
    | (noise) "entry sig \<noteq> stopLoss sig"
        "js_lt (js_div \<bar>entry sig - stopLoss sig\<bar> (entry sig)) (1 / 1000)"
    | (wide) "entry sig \<noteq> stopLoss sig"
        "\<not> js_lt (js_div \<bar>entry sig - stopLoss sig\<bar> (entry sig)) (1 / 1000)"
        "js_gt (js_div \<bar>entry sig - stopLoss sig\<bar> (entry sig)) (10 / 100)"
    | (ratio) "entry sig \<noteq> stopLoss sig"
        "\<not> js_lt (js_div \<bar>entry sig - stopLoss sig\<bar> (entry sig)) (1 / 1000)"
        "\<not> js_gt (js_div \<bar>entry sig - stopLoss sig\<bar> (entry sig)) (10 / 100)"
        "\<bar>takeProfit sig - entry sig\<bar> / \<bar>entry sig - stopLoss sig\<bar> < 2"
    using assms unfolding risk_isValid_iff by blast
  then have "signal (applyRiskManagement sig balance riskPercent maxLeverage) = sig"
  proof cases
    case zero
    then show ?thesis by (simp add: risk_zero)
  next
    case noise
    then show ?thesis by (simp add: risk_noise)
  next
    case wide
    then show ?thesis by (simp add: risk_wide)
  next
    case ratio
    then show ?thesis by (simp add: risk_ratio)
  qed
  then show ?thesis by simp
qed

theorem risk_rejection_keeps_signal_witness:
  "\<not> isValid (applyRiskManagement (candidate LONG 100 100 104) 1000 1 5)
   \<and> signal (applyRiskManagement (candidate LONG 100 100 104) 1000 1 5)
       = candidate LONG 100 100 104
   \<and> positionSize (signal (applyRiskManagement (candidate LONG 100 100 104) 1000 1 5)) = None
   \<and> suggestedLeverage (signal (applyRiskManagement (candidate LONG 100 100 104) 1000 1 5))
       = None"
proof -
  have nv: "\<not> isValid (applyRiskManagement (candidate LONG 100 100 104) 1000 1 5)"
    by (simp add: risk_isValid_iff)
  from risk_rejection_keeps_signal [OF nv] nv show ?thesis by (simp add: candidate_def)
qed

text \<open>
  Claim C4, as amended. For every candidate signal with nonzero stop distance, the risk
  validator rejects it unless the stop distance as a fraction of entry lies in the closed
  interval from 0.001 to 0.10, both bounds included: a fraction below 0.1% is rejected as
  noise, a fraction above 10% (or an entry of zero, whose fraction is infinite) is rejected
  as excessive volatility, and a fraction of exactly 0.1% or exactly 10% is accepted exactly
  when the remaining check (risk/reward at least 2) passes.
\<close>

theorem risk_stop_fraction_closed_interval:
  assumes "entry sig \<noteq> stopLoss sig"
  shows "(isValid (applyRiskManagement sig b r m) \<longrightarrow>
            entry sig \<noteq> 0 \<and> 1 / 1000 \<le> \<bar>entry sig - stopLoss sig\<bar> / entry sig
            \<and> \<bar>entry sig - stopLoss sig\<bar> / entry sig \<le> 1 / 10)
       \<and> (entry sig \<noteq> 0 \<and> \<bar>entry sig - stopLoss sig\<bar> / entry sig < 1 / 1000 \<longrightarrow>
            applyRiskManagement sig b r m =
              \<lparr>isValid = False, signal = sig,
               reason = Some ''Unsafe: SL distance too small (Market Noise)''\<rparr>)
       \<and> (entry sig = 0 \<or> 1 / 10 < \<bar>entry sig - stopLoss sig\<bar> / entry sig \<longrightarrow>
            applyRiskManagement sig b r m =
              \<lparr>isValid = False, signal = sig,
               reason = Some ''Unsafe: SL distance too large (Extreme Volatility)''\<rparr>)
       \<and> (entry sig \<noteq> 0 \<and> 1 / 1000 \<le> \<bar>entry sig - stopLoss sig\<bar> / entry sig
            \<and> \<bar>entry sig - stopLoss sig\<bar> / entry sig \<le> 1 / 10 \<longrightarrow>
            isValid (applyRiskManagement sig b r m) =
              (2 \<le> \<bar>takeProfit sig - entry sig\<bar> / \<bar>entry sig - stopLoss sig\<bar>))"
proof -
  have d: "\<bar>entry sig - stopLoss sig\<bar> \<noteq> 0" "0 \<le> \<bar>entry sig - stopLoss sig\<bar>"
    using assms by simp_all
  note lt = js_fraction_lt [OF d] and gt = js_fraction_gt [OF d]
  have 1: "isValid (applyRiskManagement sig b r m) \<longrightarrow>
            entry sig \<noteq> 0 \<and> 1 / 1000 \<le> \<bar>entry sig - stopLoss sig\<bar> / entry sig
            \<and> \<bar>entry sig - stopLoss sig\<bar> / entry sig \<le> 1 / 10"
    unfolding risk_isValid_iff lt gt by auto
  have 2: "entry sig \<noteq> 0 \<and> \<bar>entry sig - stopLoss sig\<bar> / entry sig < 1 / 1000 \<longrightarrow>
            applyRiskManagement sig b r m =
              \<lparr>isValid = False, signal = sig,
               reason = Some ''Unsafe: SL distance too small (Market Noise)''\<rparr>"
    using risk_noise [OF assms, of b r m] unfolding lt by blast
  have 3: "entry sig = 0 \<or> 1 / 10 < \<bar>entry sig - stopLoss sig\<bar> / entry sig \<longrightarrow>
            applyRiskManagement sig b r m =
              \<lparr>isValid = False, signal = sig,
               reason = Some ''Unsafe: SL distance too large (Extreme Volatility)''\<rparr>"
  proof
    assume h: "entry sig = 0 \<or> 1 / 10 < \<bar>entry sig - stopLoss sig\<bar> / entry sig"
    then have a: "\<not> js_lt (js_div \<bar>entry sig - stopLoss sig\<bar> (entry sig)) (1 / 1000)"
      unfolding lt by linarith
    from h have b: "js_gt (js_div \<bar>entry sig - stopLoss sig\<bar> (entry sig)) (10 / 100)"
      unfolding gt by linarith
    from risk_wide [OF assms a b] show "applyRiskManagement sig b r m =
              \<lparr>isValid = False, signal = sig,
               reason = Some ''Unsafe: SL distance too large (Extreme Volatility)''\<rparr>" .
  qed
  have 4: "entry sig \<noteq> 0 \<and> 1 / 1000 \<le> \<bar>entry sig - stopLoss sig\<bar> / entry sig
            \<and> \<bar>entry sig - stopLoss sig\<bar> / entry sig \<le> 1 / 10 \<longrightarrow>
            isValid (applyRiskManagement sig b r m) =
              (2 \<le> \<bar>takeProfit sig - entry sig\<bar> / \<bar>entry sig - stopLoss sig\<bar>)"
    unfolding risk_isValid_iff lt gt using assms by auto
  from 1 2 3 4 show ?thesis by blast
qed

theorem risk_stop_fraction_closed_interval_witness:
  "entry (candidate LONG 100 90 120) \<noteq> stopLoss (candidate LONG 100 90 120)
   \<and> isValid (applyRiskManagement (candidate LONG 100 90 120) 1000 1 5)
   \<and> \<not> isValid (applyRiskManagement (candidate LONG 100 90 119) 1000 1 5)
   \<and> applyRiskManagement (candidate SHORT 10000 10005 9990) 1000 1 5 =
        \<lparr>isValid = False, signal = candidate SHORT 10000 10005 9990,
         reason = Some ''Unsafe: SL distance too small (Market Noise)''\<rparr>
   \<and> applyRiskManagement (candidate LONG 100 89 130) 1000 1 5 =
        \<lparr>isValid = False, signal = candidate LONG 100 89 130,
         reason = Some ''Unsafe: SL distance too large (Extreme Volatility)''\<rparr>
   \<and> applyRiskManagement (candidate SHORT 0 1 (- 2)) 1000 1 5 =
        \<lparr>isValid = False, signal = candidate SHORT 0 1 (- 2),
         reason = Some ''Unsafe: SL distance too large (Extreme Volatility)''\<rparr>"
proof -
  have a: "entry (candidate LONG 100 90 120) \<noteq> stopLoss (candidate LONG 100 90 120)"
    by simp
  have b: "entry (candidate LONG 100 90 119) \<noteq> stopLoss (candidate LONG 100 90 119)"
    by simp
  have c: "entry (candidate SHORT 10000 10005 9990) \<noteq> stopLoss (candidate SHORT 10000 10005 9990)"
    by simp
  have d: "entry (candidate LONG 100 89 130) \<noteq> stopLoss (candidate LONG 100 89 130)"
    by simp
  have f: "entry (candidate SHORT 0 1 (- 2)) \<noteq> stopLoss (candidate SHORT 0 1 (- 2))"
    by simp
  show ?thesis
    using a risk_stop_fraction_closed_interval [OF a, of 1000 1 5]
      risk_stop_fraction_closed_interval [OF b, of 1000 1 5]
      risk_stop_fraction_closed_interval [OF c, of 1000 1 5]
      risk_stop_fraction_closed_interval [OF d, of 1000 1 5]
      risk_stop_fraction_closed_interval [OF f, of 1000 1 5]
    by simp
qed

text \<open>
  The claim as stated fails at a stop distance of exactly 0.1% of entry (entry 1000,
  stop 999, target 1002): the candidate is accepted, not rejected as noise.
\<close>

theorem risk_stop_fraction_lower_bound_counterexample:
  "\<bar>entry (candidate LONG 1000 999 1002) - stopLoss (candidate LONG 1000 999 1002)\<bar>
      / entry (candidate LONG 1000 999 1002) = 1 / 1000
   \<and> isValid (applyRiskManagement (candidate LONG 1000 999 1002) 1000 1 5)"
  by (simp add: risk_isValid_iff js_div_def)




section \<open>Claims about the confluence vote\<close>

text \<open>
  Claim C9. For every input to the confluence engine, the long vote count plus the short
  vote count is at most 3 and each of the three indicators contributes to at most one
  direction, so both directions can never reach 2 votes at once; hence checking the long
  confluence first can never mask a short confluence: whenever the short side has 2 votes,
  the outcome is the one of the short branch.
\<close>

theorem confluence_votes_exclusive:
  "length (longSignals e r b) + length (shortSignals e r b) \<le> 3
   \<and> length (longSignals e 0 0) + length (shortSignals e 0 0) \<le> 1
   \<and> length (longSignals 0 r 0) + length (shortSignals 0 r 0) \<le> 1
   \<and> length (longSignals 0 0 b) + length (shortSignals 0 0 b) \<le> 1
   \<and> \<not> (2 \<le> length (longSignals e r b) \<and> 2 \<le> length (shortSignals e r b))
   \<and> (2 \<le> length (shortSignals e r b) \<longrightarrow>
        confluence symb (longSignals e r b) (shortSignals e r b) up vol =
          (if up then
             (None, [],
              [symb @ '': SHORT confluence ('' @ join ''+'' (shortSignals e r b)
                 @ '') rejected by SMA 200 trend filter.''])
           else if \<not> vol then
             (None, [], [symb @ '': SHORT confluence rejected by Volume filter.''])
           else (Some SHORT, shortSignals e r b, [])))"
  by (simp add: longSignals_def shortSignals_def confluence_def)

theorem confluence_votes_exclusive_witness:
  "2 \<le> length (shortSignals (- 1) (- 1) 0)
   \<and> length (longSignals (- 1) (- 1) 0) = 0
   \<and> confluence ''BTCUSDT'' (longSignals (- 1) (- 1) 0) (shortSignals (- 1) (- 1) 0) False True =
       (Some SHORT, [''EMA Cross'', ''RSI Overbought''], [])"
  using confluence_votes_exclusive [of "- 1" "- 1" 0 "''BTCUSDT''" False True]
  by (simp add: longSignals_def shortSignals_def)

section \<open>Claims about the regime classifier\<close>

text \<open>
  Claim C7. For every input of at least 50 bars, \<open>selectSmartTimeframes\<close> returns one of
  exactly three fixed timeframe pairs, determined solely by the latest ADX(14) value through
  a three-way split at 20 and 25: one pair when ADX < 20, a different pair when ADX > 25,
  and the middle pair otherwise, so that the bounds 20 and 25 themselves select the middle
  pair.
\<close>

theorem regime_three_way_split:
  assumes "50 \<le> length klines"
  shows "timeframes (selectSmartTimeframes klines) =
           (if calculateADX klines 14 ! (length klines - 1) < 20 then [TF_5m, TF_15m]
            else if calculateADX klines 14 ! (length klines - 1) > 25 then [TF_1h, TF_4h]
            else [TF_15m, TF_1h])
         \<and> (20 \<le> calculateADX klines 14 ! (length klines - 1)
              \<and> calculateADX klines 14 ! (length klines - 1) \<le> 25 \<longrightarrow>
            timeframes (selectSmartTimeframes klines) = [TF_15m, TF_1h])
         \<and> [TF_5m, TF_15m] \<noteq> [TF_1h, TF_4h] \<and> [TF_5m, TF_15m] \<noteq> [TF_15m, TF_1h]
         \<and> [TF_1h, TF_4h] \<noteq> [TF_15m, TF_1h]"
  using assms by (simp add: selectSmartTimeframes_def Let_def)

theorem regime_three_way_split_witness:
  "50 \<le> length ranging_klines
   \<and> calculateADX ranging_klines 14 ! 49 = 0
   \<and> timeframes (selectSmartTimeframes ranging_klines) = [TF_5m, TF_15m]
   \<and> 25 < calculateADX trending_klines 14 ! 49
   \<and> timeframes (selectSmartTimeframes trending_klines) = [TF_1h, TF_4h]
   \<and> calculateADX transition_klines 14 ! 49 = 3335175 / 134456
   \<and> timeframes (selectSmartTimeframes transition_klines) = [TF_15m, TF_1h]"
proof -
  have r: "50 \<le> length ranging_klines" and t: "50 \<le> length trending_klines"
    and m: "50 \<le> length transition_klines"
    by simp_all
  show ?thesis
    using regime_three_way_split [OF r] regime_three_way_split [OF t]
      regime_three_way_split [OF m] trending_adx [of 49]
    by (simp add: ranging_adx transition_adx)
qed

text \<open>
  Claim C8. For every input of at least 50 bars, \<open>selectSmartTimeframes\<close> sets \<open>isVolatile\<close>
  to true if and only if the latest ATR(14) value strictly exceeds 1.8 times the mean of
  the trailing 20 ATR values; for fewer than 50 bars it returns the fixed default
  timeframe pair with \<open>isVolatile = false\<close>.
\<close>

theorem regime_volatility_flag:
  "(50 \<le> length klines \<longrightarrow>
      isVolatile (selectSmartTimeframes klines) =
        (calculateATR klines 14 ! (length klines - 1)
           > sum_list (slice_last (calculateATR klines 14) 20) / 20 * (18 / 10)))
   \<and> (length klines < 50 \<longrightarrow>
      selectSmartTimeframes klines = \<lparr>timeframes = [TF_15m, TF_1h], isVolatile = False\<rparr>)"
  by (simp add: selectSmartTimeframes_def Let_def reduce_sum_eq mult.commute)

theorem regime_volatility_flag_witness:
  "50 \<le> length ranging_klines
   \<and> \<not> isVolatile (selectSmartTimeframes ranging_klines)
   \<and> 50 \<le> length spike_klines
   \<and> calculateATR spike_klines 14 ! 49 = 43 / 14
   \<and> sum_list (slice_last (calculateATR spike_klines 14) 20) / 20 = (19 + 43 / 14) / 20
   \<and> isVolatile (selectSmartTimeframes spike_klines)
   \<and> length (take 49 spike_klines) < 50
   \<and> selectSmartTimeframes (take 49 spike_klines)
       = \<lparr>timeframes = [TF_15m, TF_1h], isVolatile = False\<rparr>"
  using regime_volatility_flag [of ranging_klines] regime_volatility_flag [of spike_klines]
    regime_volatility_flag [of "take 49 spike_klines"]
  by (simp add: ranging_atr ranging_atr_sum spike_atr spike_atr_sum)

section \<open>Claims about the RSI\<close>

text \<open>
  Claim C5, as amended. In \<open>calculateRSI\<close> (with a positive period, as at every call),
  at every index \<open>i > period\<close> where the Wilder-smoothed average loss is 0, the returned value is \<open>100 - 100/(1 + 100)\<close>, that is
  10000/101 (about 99.01): the code gives the relative strength the value 100 there; at
  every other index \<open>i > period\<close> the value is \<open>100 - 100/(1 + avgGain/avgLoss)\<close>; and
  every index \<open>\<le> period\<close> holds the neutral sentinel 50.
\<close>

theorem rsi_zero_loss_value:
  assumes "i < length closes" and "0 < period"
  shows "(period < i \<and> snd (rsi_avgs closes period i) = 0 \<longrightarrow>
            calculateRSI closes period ! i = 100 - 100 / (1 + 100)
            \<and> calculateRSI closes period ! i = 10000 / 101)
       \<and> (period < i \<and> snd (rsi_avgs closes period i) \<noteq> 0 \<longrightarrow>
            calculateRSI closes period ! i =
              100 - 100 / (1 + fst (rsi_avgs closes period i) / snd (rsi_avgs closes period i)))
       \<and> (i \<le> period \<longrightarrow> calculateRSI closes period ! i = 50)"
  using assms by (cases "rsi_avgs closes period i") (simp add: calculateRSI_nth rsi_value_def)

theorem rsi_zero_loss_value_witness:
  "15 < length (replicate 16 (100::real))
   \<and> snd (rsi_avgs (replicate 16 100) 14 15) = 0
   \<and> calculateRSI (replicate 16 100) 14 ! 15 = 10000 / 101
   \<and> calculateRSI (replicate 16 100) 14 ! 14 = 50
   \<and> 15 < length dip_closes
   \<and> rsi_avgs dip_closes 14 15 = (0, 1 / 14)
   \<and> calculateRSI dip_closes 14 ! 15 = 0"
proof -
  have l: "15 < length (replicate 16 (100::real))" "14 < length (replicate 16 (100::real))"
    "15 < length dip_closes"
    by (simp_all add: dip_closes_def)
  have p: "0 < (14::nat)" by simp
  have z: "rsi_avgs (replicate 16 100) 14 15 = (0, 0)"
    by (rule rsi_avgs_const [where c = 100]) simp
  from rsi_zero_loss_value [OF l(1) p] rsi_zero_loss_value [OF l(2) p]
    rsi_zero_loss_value [OF l(3) p] l(3) z dip_rsi_avgs
  show ?thesis by simp
qed

text \<open>
  The claim as stated fails on sixteen equal closes: at index 15 the average loss is 0 and
  the value is 10000/101, not 100.
\<close>

theorem rsi_zero_loss_not_100_counterexample:
  "15 < length (replicate 16 (100::real))
   \<and> snd (rsi_avgs (replicate 16 100) 14 15) = 0
   \<and> calculateRSI (replicate 16 100) 14 ! 15 = 10000 / 101
   \<and> (10000 / 101 :: real) \<noteq> 100"
proof -
  have "rsi_avgs (replicate 16 100) 14 15 = (0, 0)"
    by (rule rsi_avgs_const [where c = 100]) simp
  then show ?thesis by (simp add: calculateRSI_const)
qed

section \<open>Claims about the confluence engine\<close>

text \<open>
  Claim C2. For every input candle sequence, \<open>runAllStrategies\<close> emits a signal in a
  direction only when at least 2 of the three indicator votes (EMA crossover, RSI extreme,
  Bollinger re-entry) agree on that direction; when at most one vote is nonzero no signal
  is emitted; when exactly one vote is nonzero (the votes are cast on 200 bars or more) a
  low-confluence rejection naming that vote is the rejection logged, and when none is, the
  log is empty.
\<close>

theorem confluence_needs_two_votes:
  "(let R = runAllStrategies now symb tf klines;
        votes = [emaVote klines, rsiVote klines, bbVote klines];
        nonzero = length (filter (\<lambda>v. v \<noteq> 0) votes)
    in (\<forall>s \<in> set (signals R).
          (direction s = LONG \<longrightarrow> 2 \<le> length (filter (\<lambda>v. v = 1) votes))
          \<and> (direction s = SHORT \<longrightarrow> 2 \<le> length (filter (\<lambda>v. v = - 1) votes)))
       \<and> (nonzero \<le> 1 \<longrightarrow> signals R = [])
       \<and> (200 \<le> length klines \<and> nonzero = 1 \<longrightarrow>
            (\<exists>name \<in> {''EMA Cross'', ''RSI Oversold'', ''RSI Overbought'', ''BB Re-entry''}.
               rejections R =
                 [symb @ '': Low confluence (1/2 signals). Strategy ['' @ name
                    @ ''] was active but insufficient.'']))
       \<and> (200 \<le> length klines \<and> nonzero = 0 \<longrightarrow> rejections R = []))"
proof (cases "length klines < 200")
  case True
  then show ?thesis by (simp add: runAllStrategies_short Let_def)
next
  case False
  then have l: "200 \<le> length klines" by simp
  define e r b where "e = emaVote klines" and "r = rsiVote klines" and "b = bbVote klines"
  define up vol where "up = isUptrend (map close klines) (length klines - 1)"
    and "vol = isVolumeConfirmed (map volume klines) (length klines - 1)"
  define R where "R = runAllStrategies now symb tf klines"
  have sg: "signals R = (case fst (confluence symb (longSignals e r b) (shortSignals e r b) up vol) of
        None \<Rightarrow> []
      | Some dir \<Rightarrow> [emitted now symb tf klines dir
             (if dir = LONG then longSignals e r b else shortSignals e r b)])"
    unfolding R_def e_def r_def b_def up_def vol_def by (rule signals_engine [OF l])
  have rj: "rejections R = snd (snd (confluence symb (longSignals e r b) (shortSignals e r b) up vol))"
    unfolding R_def e_def r_def b_def up_def vol_def by (rule rejections_engine [OF l])
  have rg: "e \<in> {- 1, 0, 1}" "r \<in> {- 1, 0, 1}" "b \<in> {- 1, 0, 1}"
    unfolding e_def r_def b_def by (rule vote_range)+
  have 1: "\<forall>s \<in> set (signals R).
          (direction s = LONG \<longrightarrow> 2 \<le> length (filter (\<lambda>v. v = 1) [e, r, b]))
          \<and> (direction s = SHORT \<longrightarrow> 2 \<le> length (filter (\<lambda>v. v = - 1) [e, r, b]))"
  proof
    fix s assume s: "s \<in> set (signals R)"
    then obtain dir where d: "fst (confluence symb (longSignals e r b) (shortSignals e r b) up vol) = Some dir"
      and "s = emitted now symb tf klines dir (if dir = LONG then longSignals e r b else shortSignals e r b)"
      unfolding sg by (cases "fst (confluence symb (longSignals e r b) (shortSignals e r b) up vol)") simp_all
    then have "direction s = dir" by (simp only: emitted_sel)
    with confluence_direction_votes [OF d]
    show "(direction s = LONG \<longrightarrow> 2 \<le> length (filter (\<lambda>v. v = 1) [e, r, b]))
          \<and> (direction s = SHORT \<longrightarrow> 2 \<le> length (filter (\<lambda>v. v = - 1) [e, r, b]))"
      by (simp only:)
  qed
  have 2: "length (filter (\<lambda>v. v \<noteq> 0) [e, r, b]) \<le> 1 \<longrightarrow> signals R = []"
    unfolding sg using few_votes_no_direction [of e r b symb up vol] by auto
  have 3: "200 \<le> length klines \<and> length (filter (\<lambda>v. v \<noteq> 0) [e, r, b]) = 1 \<longrightarrow>
            (\<exists>name \<in> {''EMA Cross'', ''RSI Oversold'', ''RSI Overbought'', ''BB Re-entry''}.
               rejections R =
                 [symb @ '': Low confluence (1/2 signals). Strategy ['' @ name
                    @ ''] was active but insufficient.''])"
  proof
    assume "200 \<le> length klines \<and> length (filter (\<lambda>v. v \<noteq> 0) [e, r, b]) = 1"
    then have "length (filter (\<lambda>v. v \<noteq> 0) [e, r, b]) = 1" ..
    from low_confluence_rejection [OF rg this, of symb up vol]
    obtain name where "name \<in> {''EMA Cross'', ''RSI Oversold'', ''RSI Overbought'', ''BB Re-entry''}"
      and "confluence symb (longSignals e r b) (shortSignals e r b) up vol =
             (None, [], [symb @ '': Low confluence (1/2 signals). Strategy ['' @ name
                           @ ''] was active but insufficient.''])"
      by blast
    then show "\<exists>name \<in> {''EMA Cross'', ''RSI Oversold'', ''RSI Overbought'', ''BB Re-entry''}.
               rejections R =
                 [symb @ '': Low confluence (1/2 signals). Strategy ['' @ name
                    @ ''] was active but insufficient.'']"
      unfolding rj by (intro bexI [of _ name]) simp_all
  qed
  have 4: "200 \<le> length klines \<and> length (filter (\<lambda>v. v \<noteq> 0) [e, r, b]) = 0 \<longrightarrow> rejections R = []"
    unfolding rj using no_confluence [of e r b symb up vol] by simp
  from 1 2 3 4 show ?thesis
    unfolding Let_def R_def [symmetric] e_def [symmetric] r_def [symmetric] b_def [symmetric]
    by blast
qed

theorem confluence_needs_two_votes_witness:
  "[emaVote cross_klines, rsiVote cross_klines, bbVote cross_klines] = [- 1, - 1, 0]
   \<and> map direction (signals (runAllStrategies 0 ''BTCUSDT'' TF_15m cross_klines)) = [SHORT]
   \<and> 200 \<le> length flat_klines
   \<and> [emaVote flat_klines, rsiVote flat_klines, bbVote flat_klines] = [0, - 1, 0]
   \<and> runAllStrategies 0 ''BTCUSDT'' TF_15m flat_klines =
       \<lparr>signals = [],
        rejections = [''BTCUSDT: Low confluence (1/2 signals). Strategy [RSI Overbought] was active but insufficient.'']\<rparr>
   \<and> 200 \<le> length quiet_klines
   \<and> [emaVote quiet_klines, rsiVote quiet_klines, bbVote quiet_klines] = [0, 0, 0]
   \<and> runAllStrategies 0 ''BTCUSDT'' TF_15m quiet_klines = \<lparr>signals = [], rejections = []\<rparr>"
proof -
  have cv: "[emaVote cross_klines, rsiVote cross_klines, bbVote cross_klines] = [- 1, - 1, 0]"
    unfolding cross_klines_def by (simp add: cross_votes)
  have cs: "map direction (signals (runAllStrategies 0 ''BTCUSDT'' TF_15m cross_klines)) = [SHORT]"
    unfolding cross_signals by simp
  have a: "\<forall>s \<in> set (signals (runAllStrategies 0 ''BTCUSDT'' TF_15m cross_klines)).
          direction s = SHORT \<longrightarrow>
            2 \<le> length (filter (\<lambda>v. v = - 1) [emaVote cross_klines, rsiVote cross_klines, bbVote cross_klines])"
    using confluence_needs_two_votes [of 0 "''BTCUSDT''" TF_15m cross_klines] unfolding Let_def by blast
  have b: "signals (runAllStrategies 0 ''BTCUSDT'' TF_15m flat_klines) = []"
    "\<exists>name \<in> {''EMA Cross'', ''RSI Oversold'', ''RSI Overbought'', ''BB Re-entry''}.
       rejections (runAllStrategies 0 ''BTCUSDT'' TF_15m flat_klines) =
         [''BTCUSDT'' @ '': Low confluence (1/2 signals). Strategy ['' @ name
            @ ''] was active but insufficient.'']"
    using confluence_needs_two_votes [of 0 "''BTCUSDT''" TF_15m flat_klines] unfolding Let_def flat_votes by simp_all
  have c: "signals (runAllStrategies 0 ''BTCUSDT'' TF_15m quiet_klines) = []"
    "rejections (runAllStrategies 0 ''BTCUSDT'' TF_15m quiet_klines) = []"
    using confluence_needs_two_votes [of 0 "''BTCUSDT''" TF_15m quiet_klines] unfolding Let_def quiet_votes by simp_all
  from a b c cv cs show ?thesis
    by (simp add: flat_votes quiet_votes flat_result quiet_result)
qed




text \<open>
  Claim C6, as amended. Two calls of \<open>runAllStrategies\<close> with identical inputs return the
  same rejections and signals that agree in every field except the timestamp, and the
  timestamp of an emitted signal is the clock reading of its call. (\<open>applyRiskManagement\<close>
  and \<open>selectSmartTimeframes\<close> read nothing but their arguments.)
\<close>

theorem engine_clock_only_in_timestamp:
  "rejections (runAllStrategies now1 symb tf klines) = rejections (runAllStrategies now2 symb tf klines)
   \<and> map (\<lambda>s. s\<lparr>timestamp := 0\<rparr>) (signals (runAllStrategies now1 symb tf klines))
       = map (\<lambda>s. s\<lparr>timestamp := 0\<rparr>) (signals (runAllStrategies now2 symb tf klines))
   \<and> map timestamp (signals (runAllStrategies now1 symb tf klines))
       = replicate (length (signals (runAllStrategies now1 symb tf klines))) now1"
proof (cases "length klines < 200")
  case True
  then show ?thesis by (simp add: runAllStrategies_short)
next
  case False
  then have l: "200 \<le> length klines" by simp
  show ?thesis
    unfolding signals_engine [OF l] rejections_engine [OF l]
    by (simp split: option.splits)
qed

text \<open>
  The claim as stated fails on \<open>cross_klines\<close>: the results of two calls at clock readings 0
  and 1 differ.
\<close>

theorem engine_clock_counterexample:
  "runAllStrategies 0 ''BTCUSDT'' TF_15m cross_klines \<noteq> runAllStrategies 1 ''BTCUSDT'' TF_15m cross_klines"
proof
  assume "runAllStrategies 0 ''BTCUSDT'' TF_15m cross_klines = runAllStrategies 1 ''BTCUSDT'' TF_15m cross_klines"
  then have "map timestamp (signals (runAllStrategies 0 ''BTCUSDT'' TF_15m cross_klines))
      = map timestamp (signals (runAllStrategies 1 ''BTCUSDT'' TF_15m cross_klines))"
    by simp
  then show False unfolding cross_signals by simp
qed

end
